theory Spec2Isabelle
  imports Complex_Main "HOL-Library.Word"
begin

unbundle bit_operations_syntax

section \<open>The receive-side frame controller of libdxwifi (receiver.c)\<close>

text \<open>
  This theory embeds \<^verbatim>\<open>src/libdxwifi/receiver.c\<close>: the sender verifier, the frame
  classifier, the control-frame handler, the data path of \<^verbatim>\<open>process_frame\<close>, the flush
  \<^verbatim>\<open>dump_packet_buffer\<close> and the capture loop.

  Conventions of the embedding.
  \<^item> A C pointer into a captured frame is the memory readable from that pointer, a function
    from byte offsets to bytes; the capture length is carried separately, as in
    \<^verbatim>\<open>struct pcap_pkthdr\<close>. The host is little-endian.
  \<^item> The staging buffer \<^verbatim>\<open>packet_buffer\<close> is a byte list of length \<^verbatim>\<open>pb_size\<close>; a heap
    node's \<^verbatim>\<open>data\<close> pointer is its offset into that list.
  \<^item> The sink \<^verbatim>\<open>fd\<close> is the list of bytes written so far; \<^verbatim>\<open>write\<close> accepts every
    request in full and returns the requested length.
  \<^item> \<^verbatim>\<open>int32_t\<close> and \<^verbatim>\<open>uint32_t\<close> values are 32-bit words; signed readings use
    \<^term>\<open>sint\<close>, and signed overflow wraps around.
  \<^item> \<^verbatim>\<open>size_t\<close> is 64 bits wide; indices into the staging buffer are natural numbers.
  \<^item> Logging has no effect on the state and is left out.
\<close>

type_synonym u8 = "8 word"
type_synonym u16 = "16 word"
type_synonym u32 = "32 word"
type_synonym memory = "nat \<Rightarrow> u8"

subsection \<open>Constants of the headers\<close>

text \<open>
  The macros and sizes below are declared in \<^verbatim>\<open>libdxwifi/dxwifi.h\<close> and the IEEE 802.11
  headers, which are not part of the sources at hand. They are parameters of the model:
  \<^verbatim>\<open>DXWIFI_TX_PAYLOAD_SIZE\<close>, \<^verbatim>\<open>DXWIFI_FRAME_CONTROL_SIZE\<close>, the two sentinel bytes
  \<^verbatim>\<open>DXWIFI_CONTROL_FRAME_PREAMBLE\<close> and \<^verbatim>\<open>DXWIFI_CONTROL_FRAME_EOT\<close>,
  \<^verbatim>\<open>sizeof(ieee80211_hdr)\<close>, \<^verbatim>\<open>IEEE80211_FCS_SIZE\<close>, whether \<^verbatim>\<open>DXWIFI_TESTS\<close> is defined,
  and the function \<^verbatim>\<open>crc32\<close> of \<^verbatim>\<open>libdxwifi/details/crc32.h\<close>.
\<close>

record dxwifi_consts =
  TX_PAYLOAD_SIZE :: nat
  FRAME_CONTROL_SIZE :: nat
  CONTROL_FRAME_PREAMBLE :: u8
  CONTROL_FRAME_EOT :: u8
  HDR_SIZE :: nat
  FCS_SIZE :: nat
  TESTS :: bool
  crc32 :: "u8 list \<Rightarrow> u32"

text \<open>
  What the headers guarantee of these constants: a data block and a control frame have
  different positive sizes, the two sentinels are different case labels of one
  \<^verbatim>\<open>switch\<close>, and a whole data frame with the longest radiotap header fits the 32-bit
  capture length.
\<close>

definition consts_ok :: "dxwifi_consts \<Rightarrow> bool" where
  "consts_ok K =
     (0 < TX_PAYLOAD_SIZE K \<and> 0 < FRAME_CONTROL_SIZE K
      \<and> FRAME_CONTROL_SIZE K \<noteq> TX_PAYLOAD_SIZE K
      \<and> CONTROL_FRAME_PREAMBLE K \<noteq> CONTROL_FRAME_EOT K
      \<and> TX_PAYLOAD_SIZE K + HDR_SIZE K + FCS_SIZE K + 65536 \<le> 2 ^ 32)"

subsection \<open>Data model\<close>

datatype dxwifi_control_frame_t =
  CONTROL_FRAME_NONE | CONTROL_FRAME_PREAMBLE_T | CONTROL_FRAME_EOT_T | CONTROL_FRAME_UNKNOWN

datatype dxwifi_rx_state_t = RX_NORMAL | RX_TIMED_OUT | RX_ERROR | RX_DEACTIVATED

text \<open>\<^verbatim>\<open>struct pcap_pkthdr\<close>: capture length and wire length (the timestamp is only logged).\<close>

record pcap_pkthdr =
  caplen :: u32
  len :: u32

text \<open>A captured frame as \<^verbatim>\<open>process_frame\<close> receives it: the header and the frame pointer.\<close>

record packet =
  pkt_stats_of :: pcap_pkthdr
  frame_of :: memory

record packet_heap_node =
  frame_number :: u32
  data :: nat
  crc_valid :: bool

text \<open>The receiver configuration, the fields of \<^verbatim>\<open>dxwifi_receiver\<close> the controller reads.\<close>

record dxwifi_receiver =
  sender_addr :: memory
  max_hamming_dist :: u32
  ordered :: bool
  add_noise :: bool
  noise_value :: u8
  packet_buffer_size :: nat

text \<open>
  \<^verbatim>\<open>dxwifi_rx_stats\<close>. The counters are 32-bit unsigned. The radiotap decode
  \<^verbatim>\<open>rtap\<close> is a function of the frame and its capture length alone, so the model keeps
  the packet it was decoded from.
\<close>

record dxwifi_rx_stats =
  total_payload_size :: u32
  total_writelen :: u32
  total_caplen :: u32
  total_blocks_lost :: u32
  total_noise_added :: u32
  num_packets_processed :: u32
  packets_dropped :: u32
  bad_crcs :: u32
  capture_state :: dxwifi_rx_state_t
  pkt_stats :: pcap_pkthdr
  rtap :: "packet option"

subsection \<open>The ordering heap\<close>

text \<open>
  Modelled from the spec: \<^verbatim>\<open>libdxwifi/details/heap.h\<close> (\<^verbatim>\<open>binary_heap\<close>,
  \<^verbatim>\<open>heap_push\<close>, \<^verbatim>\<open>heap_pop\<close>) is missing from the sources. The spec describes a
  min-heap of nodes keyed by frame number, ties broken by insertion order, whose
  \<^verbatim>\<open>pop\<close> returns false when the heap is empty. The model keeps the nodes in the order
  in which \<^verbatim>\<open>heap_pop\<close> will return them. The ordering predicate is the one of the
  source, \<^verbatim>\<open>order_by_frame_number_desc\<close>. The capacity is not modelled.

  \<^verbatim>\<open>root_slot\<close> is the frame number found in the first slot of the array \<^verbatim>\<open>tree\<close>
  while the heap is empty: memory that no push has written, or the remains of an earlier
  pop. Nothing is known of it.
\<close>

definition order_by_frame_number_desc :: "packet_heap_node \<Rightarrow> packet_heap_node \<Rightarrow> bool" where
  "order_by_frame_number_desc lhs rhs = (sint (frame_number lhs) < sint (frame_number rhs))"

record binary_heap =
  tree :: "packet_heap_node list"
  root_slot :: u32

fun heap_insert :: "packet_heap_node \<Rightarrow> packet_heap_node list \<Rightarrow> packet_heap_node list" where
  "heap_insert n [] = [n]"
| "heap_insert n (m # ms) =
     (if order_by_frame_number_desc n m then n # m # ms else m # heap_insert n ms)"

definition heap_push :: "binary_heap \<Rightarrow> packet_heap_node \<Rightarrow> binary_heap" where
  "heap_push h n = h\<lparr>tree := heap_insert n (tree h)\<rparr>"

definition heap_pop :: "binary_heap \<Rightarrow> (packet_heap_node \<times> binary_heap) option" where
  "heap_pop h = (case tree h of [] \<Rightarrow> None
                 | n # ns \<Rightarrow> Some (n, h\<lparr>tree := ns, root_slot := frame_number n\<rparr>))"

text \<open>\<^verbatim>\<open>((packet_heap_node*)fc->packet_heap.tree)->frame_number\<close>\<close>

definition root_frame_number :: "binary_heap \<Rightarrow> u32" where
  "root_frame_number h = (case tree h of [] \<Rightarrow> root_slot h | n # ns \<Rightarrow> frame_number n)"

subsection \<open>The frame controller\<close>

record frame_controller =
  packet_heap :: binary_heap
  packet_buffer :: "u8 list"
  pb_size :: nat
  index :: nat
  eot_reached :: bool
  preamble_recv :: bool
  end_capture :: bool
  rx :: dxwifi_receiver
  rx_stats :: dxwifi_rx_stats
  fd :: "u8 list"

definition zero_stats :: dxwifi_rx_stats where
  "zero_stats = \<lparr>total_payload_size = 0, total_writelen = 0, total_caplen = 0,
     total_blocks_lost = 0, total_noise_added = 0, num_packets_processed = 0,
     packets_dropped = 0, bad_crcs = 0, capture_state = RX_NORMAL,
     pkt_stats = \<lparr>caplen = 0, len = 0\<rparr>, rtap = None\<rparr>"

text \<open>
  \<^verbatim>\<open>init_frame_controller\<close>; \<^verbatim>\<open>calloc\<close> zeroes the staging buffer. The second argument
  is what the sink holds already, the third the content of the fresh heap's first slot.
\<close>

definition init_frame_controller :: "dxwifi_receiver \<Rightarrow> u8 list \<Rightarrow> u32 \<Rightarrow> frame_controller" where
  "init_frame_controller r out slot =
     \<lparr>packet_heap = \<lparr>tree = [], root_slot = slot\<rparr>,
      packet_buffer = replicate (packet_buffer_size r) 0,
      pb_size = packet_buffer_size r,
      index = 0,
      eot_reached = False,
      preamble_recv = False,
      end_capture = False,
      rx = r,
      rx_stats = zero_stats,
      fd = out\<rparr>"

subsection \<open>Reading the frame\<close>

text \<open>\<^verbatim>\<open>rtap->it_len\<close>: the 16-bit field at offset 2 of the radiotap header.\<close>

definition it_len :: "memory \<Rightarrow> nat" where
  "it_len frame = unat (frame 2) + 256 * unat (frame 3)"

definition read_u32 :: "memory \<Rightarrow> nat \<Rightarrow> u32" where
  "read_u32 m a =
     ucast (m a) OR push_bit 8 (ucast (m (a + 1))) OR push_bit 16 (ucast (m (a + 2)))
       OR push_bit 24 (ucast (m (a + 3)))"

definition read_u16 :: "memory \<Rightarrow> nat \<Rightarrow> u16" where
  "read_u16 m a = ucast (m a) OR push_bit 8 (ucast (m (a + 1)))"

definition read_bytes :: "memory \<Rightarrow> nat \<Rightarrow> nat \<Rightarrow> u8 list" where
  "read_bytes m a n = map m [a ..< a + n]"

text \<open>
  The address fields of \<^verbatim>\<open>ieee80211_hdr\<close>: frame control and duration take the first
  four bytes, then come \<^verbatim>\<open>addr1\<close>, \<^verbatim>\<open>addr2\<close> and \<^verbatim>\<open>addr3\<close>, six bytes each.
\<close>

definition addr1 :: "memory \<Rightarrow> nat" where "addr1 frame = it_len frame + 4"
definition addr2 :: "memory \<Rightarrow> nat" where "addr2 frame = it_len frame + 10"
definition addr3 :: "memory \<Rightarrow> nat" where "addr3 frame = it_len frame + 16"

text \<open>\<^verbatim>\<open>ntohl(*(uint32_t* )(mac_hdr->addr1 + 2))\<close>: bytes 2 to 5 of addr1, big-endian.\<close>

definition extract_frame_number :: "memory \<Rightarrow> u32" where
  "extract_frame_number frame =
     (let a = addr1 frame + 2 in
      push_bit 24 (ucast (frame a)) OR push_bit 16 (ucast (frame (a + 1)))
        OR push_bit 8 (ucast (frame (a + 2))) OR ucast (frame (a + 3)))"

text \<open>
  \<^verbatim>\<open>parse_rx_frame_fields\<close>: the offsets of the MAC header, the payload and the FCS from
  the frame pointer. The FCS offset is an integer: \<^verbatim>\<open>data + caplen - IEEE80211_FCS_SIZE\<close>
  lies before the frame when the capture is shorter than an FCS.
\<close>

record dxwifi_rx_frame =
  mac_hdr :: nat
  payload :: nat
  fcs :: int

definition parse_rx_frame_fields :: "dxwifi_consts \<Rightarrow> pcap_pkthdr \<Rightarrow> memory \<Rightarrow> dxwifi_rx_frame" where
  "parse_rx_frame_fields K h frame =
     \<lparr>mac_hdr = it_len frame,
      payload = it_len frame + HDR_SIZE K,
      fcs = (if TESTS K then uint (caplen h)
             else uint (caplen h) - int (FCS_SIZE K))\<rparr>"

subsection \<open>Sender verifier\<close>

text \<open>
  Modelled from the spec: \<^verbatim>\<open>hamming_dist32\<close> is declared in a header that is missing
  from the sources. The spec's glossary: the Hamming distance is the bit-count
  difference between two equal-length bitstrings.
\<close>

definition hamming_dist32 :: "u32 \<Rightarrow> u32 \<Rightarrow> u32" where
  "hamming_dist32 a b = of_nat (length (filter (bit (a XOR b)) [0 ..< 32]))"

definition addr_dist :: "memory \<Rightarrow> nat \<Rightarrow> memory \<Rightarrow> u32" where
  "addr_dist frame a expected_address =
     hamming_dist32 (read_u32 frame a) (read_u32 expected_address 0)
       + hamming_dist32 (ucast (read_u16 frame (a + 4))) (ucast (read_u16 expected_address 4))"

definition verify_sender :: "memory \<Rightarrow> memory \<Rightarrow> u32 \<Rightarrow> bool" where
  "verify_sender frame expected_address threshold =
     (let addr1_dist = addr_dist frame (addr1 frame) expected_address;
          addr2_dist = addr_dist frame (addr2 frame) expected_address;
          addr3_dist = addr_dist frame (addr3 frame) expected_address
      in addr1_dist < threshold \<or> addr2_dist < threshold \<or> addr3_dist < threshold)"

subsection \<open>Frame classifier\<close>

text \<open>
  The payload size of \<^verbatim>\<open>check_frame_control\<close>:
  \<^verbatim>\<open>caplen - rtap->it_len - sizeof(ieee80211_hdr) [- IEEE80211_FCS_SIZE]\<close>. The first
  difference is taken in \<^verbatim>\<open>unsigned int\<close> and wraps at 32 bits; the result is
  converted to \<^verbatim>\<open>size_t\<close> and the rest wraps at 64 bits.
\<close>

definition cfc_payload_size :: "dxwifi_consts \<Rightarrow> pcap_pkthdr \<Rightarrow> memory \<Rightarrow> int" where
  "cfc_payload_size K h frame =
     (let d = (uint (caplen h) - int (it_len frame)) mod 2 ^ 32
      in (d - int (HDR_SIZE K) - (if TESTS K then 0 else int (FCS_SIZE K))) mod 2 ^ 64)"

text \<open>The body of the \<^verbatim>\<open>switch\<close>: one byte of the payload, the two counters.\<close>

definition count_byte :: "dxwifi_consts \<Rightarrow> u8 \<Rightarrow> nat \<times> nat \<Rightarrow> nat \<times> nat" where
  "count_byte K b c =
     (case c of (preamble, eot) \<Rightarrow>
        if b = CONTROL_FRAME_PREAMBLE K then (preamble + 1, eot)
        else if b = CONTROL_FRAME_EOT K then (preamble, eot + 1)
        else (preamble, eot))"

text \<open>The \<^verbatim>\<open>for\<close> loop over \<^verbatim>\<open>payload[i]\<close>, \<^verbatim>\<open>i < DXWIFI_TX_PAYLOAD_SIZE\<close>.\<close>

fun count_sentinels :: "dxwifi_consts \<Rightarrow> u8 list \<Rightarrow> nat \<times> nat \<Rightarrow> nat \<times> nat" where
  "count_sentinels K [] c = c"
| "count_sentinels K (b # bs) c = count_sentinels K bs (count_byte K b c)"

text \<open>
  \<^verbatim>\<open>((float)count / payload_size) > check_threshold\<close> with the threshold 0.66. The
  quotient of the two conversions is rounded to single precision and compared with the
  single-precision value nearest to 0.66; for every payload size below \<open>2\<^sup>1\<^sup>6\<close> this is
  the comparison of the exact quotient with 66/100, which the model makes. A division by
  zero gives infinity for a positive count and a NaN, which compares false, for 0/0.
\<close>

definition over_threshold :: "nat \<Rightarrow> int \<Rightarrow> bool" where
  "over_threshold cnt payload_size =
     (if payload_size = 0 then 0 < cnt
      else (of_nat cnt / of_int payload_size :: rat) > 66 / 100)"

definition check_frame_control :: "dxwifi_consts \<Rightarrow> memory \<Rightarrow> pcap_pkthdr \<Rightarrow> dxwifi_control_frame_t" where
  "check_frame_control K frame h =
     (let payload_off = it_len frame + HDR_SIZE K;
          payload_size = cfc_payload_size K h frame
      in if payload_size = int (FRAME_CONTROL_SIZE K) then
           (case count_sentinels K (read_bytes frame payload_off (TX_PAYLOAD_SIZE K)) (0, 0) of
              (preamble, eot) \<Rightarrow>
                if over_threshold eot payload_size then CONTROL_FRAME_EOT_T
                else if over_threshold preamble payload_size then CONTROL_FRAME_PREAMBLE_T
                else CONTROL_FRAME_UNKNOWN)
         else if payload_size \<noteq> int (TX_PAYLOAD_SIZE K) then CONTROL_FRAME_UNKNOWN
         else CONTROL_FRAME_NONE)"

subsection \<open>Control-frame handling\<close>

definition handle_frame_control :: "frame_controller \<Rightarrow> dxwifi_control_frame_t \<Rightarrow> frame_controller" where
  "handle_frame_control fc type =
     (case type of
        CONTROL_FRAME_PREAMBLE_T \<Rightarrow>
          (if 0 < num_packets_processed (rx_stats fc)
           then fc\<lparr>end_capture := True\<rparr>
           else fc)\<lparr>preamble_recv := True\<rparr>
      | CONTROL_FRAME_EOT_T \<Rightarrow> fc\<lparr>eot_reached := True\<rparr>
      | _ \<Rightarrow> fc)"

subsection \<open>Flush\<close>

text \<open>\<^verbatim>\<open>write(fc->fd, buf, n)\<close>: the bytes reach the sink, the call returns \<open>n\<close>.\<close>

definition write_fd :: "frame_controller \<Rightarrow> u8 list \<Rightarrow> frame_controller" where
  "write_fd fc bytes = fc\<lparr>fd := fd fc @ bytes\<rparr>"

text \<open>
  The loop \<^verbatim>\<open>for(int i = 0; i < missing_blocks; ++i)\<close>, which writes the noise block and
  adds the length written to \<^verbatim>\<open>total_noise_added\<close>. Its argument is the number of rounds.
\<close>

primrec write_noise :: "dxwifi_consts \<Rightarrow> nat \<Rightarrow> frame_controller \<Rightarrow> frame_controller" where
  "write_noise K 0 fc = fc"
| "write_noise K (Suc i) fc =
     write_noise K i
       ((write_fd fc (replicate (TX_PAYLOAD_SIZE K) (noise_value (rx fc))))
          \<lparr>rx_stats := (rx_stats fc)
             \<lparr>total_noise_added := total_noise_added (rx_stats fc) + of_nat (TX_PAYLOAD_SIZE K)\<rparr>\<rparr>)"

text \<open>
  The body of the \<^verbatim>\<open>while\<close> loop of \<^verbatim>\<open>dump_packet_buffer\<close> for one popped node. A
  negative \<^verbatim>\<open>missing_blocks\<close> leaves the \<^verbatim>\<open>for\<close> loop without a round, and is added to
  the unsigned counter all the same.
\<close>

definition dump_node :: "dxwifi_consts \<Rightarrow> u32 \<Rightarrow> packet_heap_node \<Rightarrow> frame_controller \<Rightarrow> frame_controller" where
  "dump_node K expected_frame node fc =
     (let fc1 =
            (if ordered (rx fc) \<and> expected_frame \<noteq> frame_number node then
               (let missing_blocks = frame_number node - expected_frame;
                    fc' = (if add_noise (rx fc)
                           then write_noise K (nat (sint missing_blocks)) fc else fc)
                in fc'\<lparr>rx_stats := (rx_stats fc')
                      \<lparr>total_blocks_lost := total_blocks_lost (rx_stats fc') + missing_blocks\<rparr>\<rparr>)
             else fc);
          fc2 = write_fd fc1 (take (TX_PAYLOAD_SIZE K) (drop (data node) (packet_buffer fc1)))
      in fc2\<lparr>rx_stats := (rx_stats fc2)
            \<lparr>total_writelen := total_writelen (rx_stats fc2) + of_nat (TX_PAYLOAD_SIZE K)\<rparr>\<rparr>)"

lemma packet_heap_write_noise [simp]: "packet_heap (write_noise K i fc) = packet_heap fc"
  by (induction i arbitrary: fc) (simp_all add: write_fd_def)

lemma packet_heap_dump_node [simp]: "packet_heap (dump_node K e n fc) = packet_heap fc"
  by (simp add: dump_node_def Let_def write_fd_def)

lemma heap_pop_length: "heap_pop h = Some (n, h') \<Longrightarrow> length (tree h') < length (tree h)"
  by (auto simp: heap_pop_def split: list.splits)

function dump_loop :: "dxwifi_consts \<Rightarrow> u32 \<Rightarrow> frame_controller \<Rightarrow> frame_controller" where
  "dump_loop K expected_frame fc =
     (case heap_pop (packet_heap fc) of
        None \<Rightarrow> fc
      | Some (node, h') \<Rightarrow>
          dump_loop K (frame_number node + 1)
            (dump_node K expected_frame node (fc\<lparr>packet_heap := h'\<rparr>)))"
  by pat_completeness auto
termination
  by (relation "measure (\<lambda>(K, e, fc). length (tree (packet_heap fc)))")
     (auto dest: heap_pop_length)

declare dump_loop.simps [simp del]

definition dump_packet_buffer :: "dxwifi_consts \<Rightarrow> frame_controller \<Rightarrow> frame_controller" where
  "dump_packet_buffer K fc =
     (let expected_frame = root_frame_number (packet_heap fc)
      in (dump_loop K expected_frame fc)\<lparr>index := 0\<rparr>)"

subsection \<open>Per-frame processing\<close>

text \<open>\<^verbatim>\<open>memcpy(packet_buffer + i, src, n)\<close> for a block that lies within the buffer.\<close>

definition memcpy_at :: "u8 list \<Rightarrow> nat \<Rightarrow> u8 list \<Rightarrow> u8 list" where
  "memcpy_at buf i src = take i buf @ src @ drop (i + length src) buf"

text \<open>
  The data path of \<^verbatim>\<open>process_frame\<close>, taken when the classifier answers
  \<^verbatim>\<open>DXWIFI_CONTROL_FRAME_NONE\<close>. Its pieces first.
\<close>

text \<open>\<^verbatim>\<open>rx_frame.fcs - rx_frame.payload\<close>\<close>

definition rx_payload_size :: "dxwifi_consts \<Rightarrow> packet \<Rightarrow> int" where
  "rx_payload_size K pkt =
     (let rx_frame = parse_rx_frame_fields K (pkt_stats_of pkt) (frame_of pkt)
      in fcs rx_frame - int (payload rx_frame))"

text \<open>The source of the \<^verbatim>\<open>memcpy\<close>: \<^verbatim>\<open>DXWIFI_TX_PAYLOAD_SIZE\<close> bytes at \<^verbatim>\<open>rx_frame.payload\<close>.\<close>

definition payload_bytes :: "dxwifi_consts \<Rightarrow> packet \<Rightarrow> u8 list" where
  "payload_bytes K pkt =
     (let rx_frame = parse_rx_frame_fields K (pkt_stats_of pkt) (frame_of pkt)
      in read_bytes (frame_of pkt) (payload rx_frame) (TX_PAYLOAD_SIZE K))"

text \<open>
  \<^verbatim>\<open>crc == *rx_frame.fcs\<close>, where \<^verbatim>\<open>crc\<close> is the CRC-32 of the MAC header and the
  payload. \<^verbatim>\<open>rx_frame.fcs\<close> and \<^verbatim>\<open>rx_frame.payload\<close> are subtracted from each other
  and both are assigned from byte pointers, so \<^verbatim>\<open>*rx_frame.fcs\<close> reads one byte,
  which the comparison with the 32-bit \<^verbatim>\<open>crc\<close> extends with zeroes.
\<close>

definition frame_crc_valid :: "dxwifi_consts \<Rightarrow> packet \<Rightarrow> bool" where
  "frame_crc_valid K pkt =
     (let rx_frame = parse_rx_frame_fields K (pkt_stats_of pkt) (frame_of pkt);
          crc = crc32 K (read_bytes (frame_of pkt) (mac_hdr rx_frame)
                  (TX_PAYLOAD_SIZE K + HDR_SIZE K))
      in crc = ucast (frame_of pkt (nat (fcs rx_frame))))"

text \<open>The buffer-full check: \<^verbatim>\<open>if(fc->index + DXWIFI_TX_PAYLOAD_SIZE >= fc->pb_size)\<close>.\<close>

definition pre_flush :: "dxwifi_consts \<Rightarrow> frame_controller \<Rightarrow> frame_controller" where
  "pre_flush K fc =
     (if pb_size fc \<le> index fc + TX_PAYLOAD_SIZE K then dump_packet_buffer K fc else fc)"

definition stage_frame :: "dxwifi_consts \<Rightarrow> frame_controller \<Rightarrow> packet \<Rightarrow> frame_controller" where
  "stage_frame K fc pkt =
     (let h = pkt_stats_of pkt;
          fc0 = fc\<lparr>rx_stats := (rx_stats fc)\<lparr>rtap := Some pkt\<rparr>\<rparr>;
          payload_size = rx_payload_size K pkt
      in if payload_size \<noteq> int (TX_PAYLOAD_SIZE K) then fc0
         else
           (let fc1 = pre_flush K fc0;
                write_idx = index fc1;
                fc2 = fc1\<lparr>packet_buffer :=
                        memcpy_at (packet_buffer fc1) write_idx (payload_bytes K pkt)\<rparr>;
                frame_no = (if ordered (rx fc2) then extract_frame_number (frame_of pkt)
                            else num_packets_processed (rx_stats fc2));
                crc_ok = frame_crc_valid K pkt;
                node = \<lparr>frame_number = frame_no, data = write_idx, crc_valid = crc_ok\<rparr>;
                fc3 = fc2\<lparr>packet_heap := heap_push (packet_heap fc2) node\<rparr>;
                st = rx_stats fc3
            in fc3\<lparr>index := index fc3 + unat (caplen h),
                   rx_stats := st
                     \<lparr>total_caplen := total_caplen st + caplen h,
                      total_payload_size := total_payload_size st + of_nat (TX_PAYLOAD_SIZE K),
                      num_packets_processed := num_packets_processed st + 1,
                      bad_crcs := bad_crcs st + (if \<not> crc_ok then 0 else 1),
                      pkt_stats := h\<rparr>\<rparr>))"

definition process_frame :: "dxwifi_consts \<Rightarrow> frame_controller \<Rightarrow> packet \<Rightarrow> frame_controller" where
  "process_frame K fc pkt =
     (if verify_sender (frame_of pkt) (sender_addr (rx fc)) (max_hamming_dist (rx fc)) then
        (let ctrl_frame = check_frame_control K (frame_of pkt) (pkt_stats_of pkt)
         in if ctrl_frame = CONTROL_FRAME_UNKNOWN then fc
            else if ctrl_frame \<noteq> CONTROL_FRAME_NONE then handle_frame_control fc ctrl_frame
            else stage_frame K fc pkt)
      else fc\<lparr>rx_stats := (rx_stats fc)
              \<lparr>packets_dropped := packets_dropped (rx_stats fc) + 1\<rparr>\<rparr>)"

subsection \<open>Capture loop\<close>

text \<open>
  One round of the loop of \<^verbatim>\<open>receiver_activate_capture\<close> is decided by what \<^verbatim>\<open>poll\<close>
  and \<^verbatim>\<open>pcap_dispatch\<close> return:
  \<^item> \<open>PollTimeout\<close>: \<^verbatim>\<open>poll\<close> returned 0;
  \<^item> \<open>PollError\<close>: \<^verbatim>\<open>poll\<close> failed and \<^verbatim>\<open>rx->__activated\<close> is still set;
  \<^item> \<open>PollStopped\<close>: \<^verbatim>\<open>poll\<close> failed after \<^verbatim>\<open>receiver_stop_capture\<close> cleared
    \<^verbatim>\<open>rx->__activated\<close>;
  \<^item> \<open>Dispatch pkts\<close>: \<^verbatim>\<open>pcap_dispatch\<close> handed \<open>pkts\<close> to \<^verbatim>\<open>process_frame\<close>, one after
    the other, and returned their number;
  \<^item> \<open>DispatchStopped pkts\<close>: \<^verbatim>\<open>receiver_stop_capture\<close> ran during the dispatch, after
    \<open>pkts\<close> had been handed to \<^verbatim>\<open>process_frame\<close>: \<^verbatim>\<open>pcap_dispatch\<close> returned the
    negative \<^verbatim>\<open>PCAP_ERROR_BREAK\<close> and \<^verbatim>\<open>rx->__activated\<close> is cleared;
  \<^item> \<open>DispatchError\<close>: \<^verbatim>\<open>pcap_dispatch\<close> returned \<^verbatim>\<open>PCAP_ERROR\<close>.
  The loop runs on a list of such rounds. When the list ends while the loop condition
  still holds, the real loop would wait in \<^verbatim>\<open>poll\<close>: the model returns \<open>None\<close>.
\<close>

datatype capture_event =
  PollTimeout | PollError | PollStopped | Dispatch "packet list"
  | DispatchStopped "packet list" | DispatchError

definition set_capture_state :: "dxwifi_rx_state_t \<Rightarrow> frame_controller \<Rightarrow> frame_controller" where
  "set_capture_state s fc = fc\<lparr>rx_stats := (rx_stats fc)\<lparr>capture_state := s\<rparr>\<rparr>"

text \<open>The loop body; the first component of the result is \<^verbatim>\<open>rx->__activated\<close>.\<close>

definition capture_step :: "dxwifi_consts \<Rightarrow> capture_event \<Rightarrow> frame_controller \<Rightarrow> bool \<times> frame_controller" where
  "capture_step K e fc =
     (case e of
        PollTimeout \<Rightarrow> (False, set_capture_state RX_TIMED_OUT fc)
      | PollError \<Rightarrow> (True, set_capture_state RX_ERROR fc)
      | PollStopped \<Rightarrow> (False, set_capture_state RX_DEACTIVATED fc)
      | Dispatch pkts \<Rightarrow>
          (let fc' = foldl (process_frame K) fc pkts
           in if TESTS K \<and> pkts = [] then (False, set_capture_state RX_DEACTIVATED fc')
              else (True, fc'))
      | DispatchStopped pkts \<Rightarrow> (False, foldl (process_frame K) fc pkts)
      | DispatchError \<Rightarrow> (True, fc))"

fun capture_loop :: "dxwifi_consts \<Rightarrow> bool \<Rightarrow> frame_controller \<Rightarrow> capture_event list \<Rightarrow> frame_controller option" where
  "capture_loop K activated fc [] = (if activated \<and> \<not> end_capture fc then None else Some fc)"
| "capture_loop K activated fc (e # es) =
     (if activated \<and> \<not> end_capture fc
      then (case capture_step K e fc of (activated', fc') \<Rightarrow> capture_loop K activated' fc' es)
      else Some fc)"

text \<open>
  \<^verbatim>\<open>receiver_activate_capture\<close>: the controller is initialised, the loop runs, the
  staging buffer is flushed once more, and the statistics are handed out. The result
  is the pair of the statistics and the content of the sink.
\<close>

definition receiver_activate_capture ::
    "dxwifi_consts \<Rightarrow> dxwifi_receiver \<Rightarrow> u8 list \<Rightarrow> u32 \<Rightarrow> capture_event list \<Rightarrow> (dxwifi_rx_stats \<times> u8 list) option" where
  "receiver_activate_capture K r out slot evs =
     (case capture_loop K True (init_frame_controller r out slot) evs of
        None \<Rightarrow> None
      | Some fc \<Rightarrow> (let fc' = dump_packet_buffer K fc in Some (rx_stats fc', fd fc')))"

text \<open>A frame that reaches the staging buffer: accepted, classified as data, of the block size.\<close>

definition is_data_frame :: "dxwifi_consts \<Rightarrow> dxwifi_receiver \<Rightarrow> packet \<Rightarrow> bool" where
  "is_data_frame K r pkt =
     (verify_sender (frame_of pkt) (sender_addr r) (max_hamming_dist r)
      \<and> check_frame_control K (frame_of pkt) (pkt_stats_of pkt) = CONTROL_FRAME_NONE
      \<and> rx_payload_size K pkt = int (TX_PAYLOAD_SIZE K))"

subsection \<open>Concrete constants and frames for the examples\<close>

text \<open>
  Modelled from the spec: \<^verbatim>\<open>crc32\<close> is missing from the sources; the spec names it
  CRC-32. The examples use the CRC-32 of IEEE 802.3, bit by bit: initial value
  \<open>0xFFFFFFFF\<close>, reflected polynomial \<open>0xEDB88320\<close>, final complement.
\<close>

definition crc32_bit :: "u32 \<Rightarrow> u32" where
  "crc32_bit c = (if bit c 0 then drop_bit 1 c XOR 0xEDB88320 else drop_bit 1 c)"

definition crc32_byte :: "u32 \<Rightarrow> u8 \<Rightarrow> u32" where
  "crc32_byte c b =
     crc32_bit (crc32_bit (crc32_bit (crc32_bit (crc32_bit (crc32_bit (crc32_bit (crc32_bit
       (c XOR ucast b))))))))"

definition crc32_ieee :: "u8 list \<Rightarrow> u32" where
  "crc32_ieee bytes = NOT (foldl crc32_byte 0xFFFFFFFF bytes)"

text \<open>The memory behind a pointer to the given bytes; zeroes follow them.\<close>

definition mem_of :: "u8 list \<Rightarrow> memory" where
  "mem_of bytes = (\<lambda>i. if i < length bytes then bytes ! i else 0)"

text \<open>
  Small constants: blocks of 8 bytes, control frames of 10 bytes, a MAC header of 24
  bytes, an FCS of 4 bytes, a live capture.
\<close>

definition K0 :: dxwifi_consts where
  "K0 = \<lparr>TX_PAYLOAD_SIZE = 8, FRAME_CONTROL_SIZE = 10, CONTROL_FRAME_PREAMBLE = 0xFF,
          CONTROL_FRAME_EOT = 0xAA, HDR_SIZE = 24, FCS_SIZE = 4, TESTS = False,
          crc32 = crc32_ieee\<rparr>"

definition sender0 :: "u8 list" where
  "sender0 = [0xAA, 0xAA, 0xAA, 0xAA, 0xAA, 0xAA]"

definition rx0 :: dxwifi_receiver where
  "rx0 = \<lparr>sender_addr = mem_of sender0, max_hamming_dist = 5, ordered = True,
          add_noise = False, noise_value = 0xFF, packet_buffer_size = 64\<rparr>"

text \<open>
  A frame: a radiotap header of 8 bytes, the MAC header with the given addr1 and the
  sender's address in addr2 and addr3, the payload, and the trailer.
\<close>

definition frame_bytes :: "u8 list \<Rightarrow> u8 list \<Rightarrow> u8 list \<Rightarrow> u8 list" where
  "frame_bytes a1 body trailer =
     [0, 0, 8, 0, 0, 0, 0, 0] @ [8, 0, 0, 0] @ a1 @ sender0 @ sender0 @ [0, 0] @ body @ trailer"

definition mk_packet :: "u8 list \<Rightarrow> packet" where
  "mk_packet bytes =
     \<lparr>pkt_stats_of = \<lparr>caplen = of_nat (length bytes), len = of_nat (length bytes)\<rparr>,
      frame_of = mem_of bytes\<rparr>"

text \<open>A data frame with frame number \<open>n\<close>, a payload of eight bytes \<open>b\<close> and the given FCS.\<close>

definition data_pkt_fcs :: "u8 \<Rightarrow> u8 \<Rightarrow> u8 list \<Rightarrow> packet" where
  "data_pkt_fcs n b trailer =
     mk_packet (frame_bytes [0xAA, 0xAA, 0, 0, 0, n] (replicate 8 b) trailer)"

definition data_pkt :: "u8 \<Rightarrow> u8 \<Rightarrow> packet" where
  "data_pkt n b = data_pkt_fcs n b [0, 0, 0, 0]"

text \<open>A control frame: ten bytes \<open>b\<close>.\<close>

definition ctrl_pkt :: "u8 \<Rightarrow> packet" where
  "ctrl_pkt b = mk_packet (frame_bytes sender0 (replicate 10 b) [0, 0, 0, 0])"

definition fc0 :: frame_controller where
  "fc0 = init_frame_controller rx0 [] 0"

text \<open>A frame with a payload of three bytes, and a frame of zeroes from another sender.\<close>

definition short_pkt :: packet where
  "short_pkt = mk_packet (frame_bytes sender0 [1, 2, 3] [0, 0, 0, 0])"

definition foreign_pkt :: packet where
  "foreign_pkt = mk_packet (replicate 44 0)"

subsection \<open>The Hamming distance of two addresses, bit by bit\<close>

text \<open>
  The distance the spec speaks of, for comparison with \<^const>\<open>verify_sender\<close>: the number
  of bit positions in which two bytes differ, summed over the bytes of two addresses.
\<close>

definition differing_bits :: "u8 \<Rightarrow> u8 \<Rightarrow> nat" where
  "differing_bits x y = length (filter (\<lambda>i. bit x i \<noteq> bit y i) [0 ..< 8])"

definition mac_hamming :: "u8 list \<Rightarrow> u8 list \<Rightarrow> nat" where
  "mac_hamming xs ys = sum_list (map2 differing_bits xs ys)"

subsection \<open>The sink of an ordered capture, as the spec describes it\<close>

text \<open>
  A block is a payload with its frame number. A flush generation is the list of blocks
  staged between two flushes, in the order of their arrival; it is emitted sorted by
  frame number, read as a signed number, equal numbers in the order of arrival
  (\<^const>\<open>sort_key\<close> is stable).
\<close>

type_synonym block = "u32 \<times> u8 list"

definition block_key :: "block \<Rightarrow> int" where
  "block_key b = sint (fst b)"

definition emit :: "block list \<Rightarrow> u8 list" where
  "emit g = concat (map snd (sort_key block_key g))"

text \<open>
  The generations of a sequence of frames. The state is the write index, the generation
  being staged and the generations flushed so far. A data frame that finds
  \<open>write_index + payload_block_size \<ge> packet_buffer_size\<close> closes the generation and
  opens the next one; the write index advances by the capture length.
\<close>

definition gen_step ::
    "dxwifi_consts \<Rightarrow> dxwifi_receiver \<Rightarrow> nat \<times> block list \<times> block list list \<Rightarrow> packet
      \<Rightarrow> nat \<times> block list \<times> block list list" where
  "gen_step K r s pkt =
     (case s of (idx, cur, flushed) \<Rightarrow>
        if is_data_frame K r pkt then
          (let b = (extract_frame_number (frame_of pkt), payload_bytes K pkt);
               n = unat (caplen (pkt_stats_of pkt))
           in if packet_buffer_size r \<le> idx + TX_PAYLOAD_SIZE K
              then (n, [b], flushed @ [cur])
              else (idx + n, cur @ [b], flushed))
        else s)"

definition generations :: "dxwifi_consts \<Rightarrow> dxwifi_receiver \<Rightarrow> packet list \<Rightarrow> block list list" where
  "generations K r pkts =
     (case foldl (gen_step K r) (0, [], []) pkts of (idx, cur, flushed) \<Rightarrow> flushed @ [cur])"

definition ordered_sink :: "dxwifi_consts \<Rightarrow> dxwifi_receiver \<Rightarrow> packet list \<Rightarrow> u8 list" where
  "ordered_sink K r pkts = concat (map emit (generations K r pkts))"

text \<open>The frames that the capture loop hands to \<^verbatim>\<open>process_frame\<close>, in order.\<close>

definition event_frames :: "capture_event \<Rightarrow> packet list" where
  "event_frames e =
     (case e of Dispatch pkts \<Rightarrow> pkts | DispatchStopped pkts \<Rightarrow> pkts | _ \<Rightarrow> [])"

fun capture_frames :: "dxwifi_consts \<Rightarrow> bool \<Rightarrow> frame_controller \<Rightarrow> capture_event list \<Rightarrow> packet list" where
  "capture_frames K activated fc [] = []"
| "capture_frames K activated fc (e # es) =
     (if activated \<and> \<not> end_capture fc
      then event_frames e
           @ (case capture_step K e fc of (activated', fc') \<Rightarrow> capture_frames K activated' fc' es)
      else [])"

subsection \<open>The state of the staging buffer\<close>

text \<open>The block a heap node points to, and the blocks of the heap in its order.\<close>

definition block_of :: "dxwifi_consts \<Rightarrow> u8 list \<Rightarrow> packet_heap_node \<Rightarrow> u8 list" where
  "block_of K buf n = take (TX_PAYLOAD_SIZE K) (drop (data n) buf)"

definition staged :: "dxwifi_consts \<Rightarrow> frame_controller \<Rightarrow> block list" where
  "staged K fc =
     map (\<lambda>n. (frame_number n, block_of K (packet_buffer fc) n)) (tree (packet_heap fc))"

text \<open>
  The staging buffer has its configured size and holds at least one block; every node's
  block lies within the buffer and below the write index.
\<close>

definition buffer_inv :: "dxwifi_consts \<Rightarrow> frame_controller \<Rightarrow> bool" where
  "buffer_inv K fc =
     (length (packet_buffer fc) = pb_size fc \<and> TX_PAYLOAD_SIZE K \<le> pb_size fc
      \<and> (\<forall>n \<in> set (tree (packet_heap fc)).
            data n + TX_PAYLOAD_SIZE K \<le> index fc \<and> data n + TX_PAYLOAD_SIZE K \<le> pb_size fc))"

text \<open>The node that \<^const>\<open>stage_frame\<close> pushes, given the state after the buffer-full check.\<close>

definition staged_node :: "dxwifi_consts \<Rightarrow> frame_controller \<Rightarrow> packet \<Rightarrow> packet_heap_node" where
  "staged_node K fc pkt =
     \<lparr>frame_number = (if ordered (rx fc) then extract_frame_number (frame_of pkt)
                       else num_packets_processed (rx_stats fc)),
      data = index fc,
      crc_valid = frame_crc_valid K pkt\<rparr>"

text \<open>
  The controller and the generations agree: same write index, the sink holds the flushed
  generations after what it held at the start, and the heap holds the blocks of the
  current generation in sorted order.
\<close>

definition sim ::
    "dxwifi_consts \<Rightarrow> dxwifi_receiver \<Rightarrow> u8 list \<Rightarrow> frame_controller
      \<Rightarrow> nat \<times> block list \<times> block list list \<Rightarrow> bool" where
  "sim K r out fc s =
     (case s of (idx, cur, flushed) \<Rightarrow>
        rx fc = r \<and> pb_size fc = packet_buffer_size r \<and> index fc = idx
        \<and> fd fc = out @ concat (map emit flushed)
        \<and> staged K fc = sort_key block_key cur
        \<and> buffer_inv K fc)"

text \<open>Insertion after the elements with the same key, for any key.\<close>

fun insert_after :: "('a \<Rightarrow> int) \<Rightarrow> 'a \<Rightarrow> 'a list \<Rightarrow> 'a list" where
  "insert_after k x [] = [x]"
| "insert_after k x (y # ys) = (if k x < k y then x # y # ys else y # insert_after k x ys)"

subsection \<open>More example frames and a receiver that adds noise\<close>

text \<open>
  The data frame with frame number 0 and payload bytes 7, followed by the CRC-32 of its
  MAC header and payload, \<open>0xB27F1E43\<close>, least significant byte first.
\<close>

definition good_fcs_pkt :: packet where
  "good_fcs_pkt = data_pkt_fcs 0 7 [0x43, 0x1E, 0x7F, 0xB2]"

text \<open>
  A data frame whose CRC-32 is 230, below 256, followed by that CRC-32, least significant
  byte first.
\<close>

definition small_crc_pkt :: packet where
  "small_crc_pkt =
     mk_packet (frame_bytes [0xAA, 0xAA, 0, 0, 0, 0] [216, 0, 133, 0, 0, 0, 0, 0] [230, 0, 0, 0])"

definition rx_noise :: dxwifi_receiver where
  "rx_noise = rx0\<lparr>add_noise := True\<rparr>"

definition fc_noise :: frame_controller where
  "fc_noise = init_frame_controller rx_noise [] 0"

subsection \<open>The effect of one flush\<close>

text \<open>
  What one flush adds to \<^verbatim>\<open>total_blocks_lost\<close>, how many noise blocks it writes and
  which bytes it writes, for the nodes in the order of the pops and the expected frame
  number at the start. These follow the loop of \<^const>\<open>dump_loop\<close>.
\<close>

fun lost_blocks :: "u32 \<Rightarrow> u32 list \<Rightarrow> u32" where
  "lost_blocks e [] = 0"
| "lost_blocks e (f # fs) = (if e \<noteq> f then f - e else 0) + lost_blocks (f + 1) fs"

fun noise_rounds :: "u32 \<Rightarrow> u32 list \<Rightarrow> nat" where
  "noise_rounds e [] = 0"
| "noise_rounds e (f # fs) = (if e \<noteq> f then nat (sint (f - e)) else 0) + noise_rounds (f + 1) fs"

fun flush_bytes :: "dxwifi_consts \<Rightarrow> dxwifi_receiver \<Rightarrow> u8 list \<Rightarrow> u32 \<Rightarrow> packet_heap_node list \<Rightarrow> u8 list" where
  "flush_bytes K r buf e [] = []"
| "flush_bytes K r buf e (n # ns) =
     (if ordered r \<and> e \<noteq> frame_number n \<and> add_noise r
      then concat (replicate (nat (sint (frame_number n - e)))
             (replicate (TX_PAYLOAD_SIZE K) (noise_value r)))
      else [])
     @ block_of K buf n @ flush_bytes K r buf (frame_number n + 1) ns"

text \<open>No pop finds a frame number below the expected one.\<close>

fun gaps_nonneg :: "u32 \<Rightarrow> u32 list \<Rightarrow> bool" where
  "gaps_nonneg e [] = True"
| "gaps_nonneg e (f # fs) = (0 \<le> sint (f - e) \<and> gaps_nonneg (f + 1) fs)"

subsection \<open>Control frames the receiver accepts\<close>



section \<open>Properties\<close>

subsection \<open>Facts about the examples\<close>

lemma consts_ok_K0: "consts_ok K0"
  by (simp add: consts_ok_def K0_def)

lemma hamming_dist32_self: "hamming_dist32 a a = 0"
  by (simp add: hamming_dist32_def)

lemma verify_sender_data_pkt:
  "verify_sender (frame_of (data_pkt_fcs n b t)) (sender_addr rx0) (max_hamming_dist rx0)"
  by (simp add: verify_sender_def addr_dist_def addr2_def it_len_def read_u32_def read_u16_def
      data_pkt_fcs_def mk_packet_def mem_of_def frame_bytes_def sender0_def rx0_def
      hamming_dist32_self)

lemma verify_sender_ctrl_pkt:
  "verify_sender (frame_of (ctrl_pkt b)) (sender_addr rx0) (max_hamming_dist rx0)"
  by (simp add: verify_sender_def addr_dist_def addr2_def it_len_def read_u32_def read_u16_def
      ctrl_pkt_def mk_packet_def mem_of_def frame_bytes_def sender0_def rx0_def
      hamming_dist32_self)

lemma check_frame_control_data_pkt:
  "length t = 4 \<Longrightarrow>
   check_frame_control K0 (frame_of (data_pkt_fcs n b t)) (pkt_stats_of (data_pkt_fcs n b t))
     = CONTROL_FRAME_NONE"
  by (simp add: check_frame_control_def cfc_payload_size_def it_len_def K0_def
      data_pkt_fcs_def mk_packet_def mem_of_def frame_bytes_def sender0_def)

lemma check_frame_control_preamble:
  "check_frame_control K0 (frame_of (ctrl_pkt 0xFF)) (pkt_stats_of (ctrl_pkt 0xFF))
     = CONTROL_FRAME_PREAMBLE_T"
  by code_simp


lemma check_frame_control_unknown:
  "check_frame_control K0 (frame_of (ctrl_pkt 0x11)) (pkt_stats_of (ctrl_pkt 0x11))
     = CONTROL_FRAME_UNKNOWN"
  by code_simp

subsection \<open>Flushing an empty heap\<close>

lemma dump_loop_empty: "tree (packet_heap fc) = [] \<Longrightarrow> dump_loop K e fc = fc"
  by (subst dump_loop.simps) (simp add: heap_pop_def)

lemma dump_packet_buffer_empty:
  "tree (packet_heap fc) = [] \<Longrightarrow> dump_packet_buffer K fc = fc\<lparr>index := 0\<rparr>"
  by (simp add: dump_packet_buffer_def dump_loop_empty)

subsection \<open>More facts about the examples\<close>

lemma rx_fc0 [simp]: "rx fc0 = rx0"
  by (simp add: fc0_def init_frame_controller_def)

lemma verify_sender_short_pkt:
  "verify_sender (frame_of short_pkt) (sender_addr rx0) (max_hamming_dist rx0)"
  by (simp add: verify_sender_def addr_dist_def addr2_def it_len_def read_u32_def read_u16_def
      short_pkt_def mk_packet_def mem_of_def frame_bytes_def sender0_def rx0_def
      hamming_dist32_self)

lemma check_short_pkt:
  "check_frame_control K0 (frame_of short_pkt) (pkt_stats_of short_pkt) = CONTROL_FRAME_UNKNOWN"
  by code_simp

lemma size_short_pkt: "cfc_payload_size K0 (pkt_stats_of short_pkt) (frame_of short_pkt) = 3"
  by code_simp

lemma verify_sender_foreign_pkt:
  "\<not> verify_sender (frame_of foreign_pkt) (sender_addr rx0) (max_hamming_dist rx0)"
  by code_simp

subsection \<open>Frames that are skipped\<close>

lemma process_frame_unknown:
  "verify_sender (frame_of pkt) (sender_addr (rx fc)) (max_hamming_dist (rx fc)) \<Longrightarrow>
   check_frame_control K (frame_of pkt) (pkt_stats_of pkt) = CONTROL_FRAME_UNKNOWN \<Longrightarrow>
   process_frame K fc pkt = fc"
  by (simp add: process_frame_def)

lemma process_frame_rejected:
  "\<not> verify_sender (frame_of pkt) (sender_addr (rx fc)) (max_hamming_dist (rx fc)) \<Longrightarrow>
   process_frame K fc pkt
     = fc\<lparr>rx_stats := (rx_stats fc)\<lparr>packets_dropped := packets_dropped (rx_stats fc) + 1\<rparr>\<rparr>"
  by (simp add: process_frame_def)

lemma check_none_size:
  "check_frame_control K frame h = CONTROL_FRAME_NONE \<Longrightarrow>
   cfc_payload_size K h frame = int (TX_PAYLOAD_SIZE K)"
  by (auto simp: check_frame_control_def Let_def split: if_splits prod.splits)

lemma cfc_size_exact:
  assumes ok: "consts_ok K"
    and sz: "cfc_payload_size K (pkt_stats_of pkt) (frame_of pkt) = int (TX_PAYLOAD_SIZE K)"
  shows "rx_payload_size K pkt = int (TX_PAYLOAD_SIZE K)"
proof -
  define c where "c = uint (caplen (pkt_stats_of pkt))"
  define l where "l = int (it_len (frame_of pkt))"
  define f where "f = (if TESTS K then 0 else int (FCS_SIZE K))"
  define P where "P = int (TX_PAYLOAD_SIZE K)"
  define H where "H = int (HDR_SIZE K)"
  have c: "0 \<le> c" "c < 2 ^ 32"
    unfolding c_def using unsigned_less [of "caplen (pkt_stats_of pkt)", where ?'a = int]
    by simp_all
  have "uint (frame_of pkt 2) < 256" "uint (frame_of pkt 3) < 256"
    using unsigned_less [of "frame_of pkt 2", where ?'a = int]
      unsigned_less [of "frame_of pkt 3", where ?'a = int] by simp_all
  then have l: "0 \<le> l" "l < 65536" unfolding l_def it_len_def by simp_all
  have b: "0 < P" "0 \<le> H" "0 \<le> f" "P + H + f + 65536 \<le> 2 ^ 32"
    using ok unfolding consts_ok_def P_def H_def f_def by auto
  define d where "d = (c - l) mod 2 ^ 32"
  have eq: "(d - H - f) mod 2 ^ 64 = P"
    using sz unfolding cfc_payload_size_def Let_def c_def l_def f_def P_def H_def d_def by simp
  have d: "0 \<le> d" "d < 2 ^ 32" unfolding d_def by simp_all
  have "d - H - f = P"
  proof (cases "0 \<le> d - H - f")
    case True
    then have "(d - H - f) mod 2 ^ 64 = d - H - f"
      using d b by (intro mod_pos_pos_trivial) auto
    with eq show ?thesis by simp
  next
    case False
    then have neg: "d - H - f < 0" by simp
    have "- (2 ^ 64) \<le> d - H - f" using d b by simp
    then have "(d - H - f) mod 2 ^ 64 = d - H - f + 2 ^ 64"
      using neg by (smt (verit) mod_add_self2 mod_pos_pos_trivial)
    with eq have "d - H - f + 2 ^ 64 = P" by simp
    then show ?thesis using d b by simp
  qed
  then have dval: "d = P + H + f" by simp
  have "l \<le> c"
  proof (rule ccontr)
    assume "\<not> l \<le> c"
    then have "c - l < 0" "- (2 ^ 32) \<le> c - l" using c l by simp_all
    then have "(c - l) mod 2 ^ 32 = c - l + 2 ^ 32"
      by (smt (verit) mod_add_self2 mod_pos_pos_trivial)
    then have "d = c - l + 2 ^ 32" unfolding d_def by simp
    with dval b c l show False by simp
  qed
  then have "(c - l) mod 2 ^ 32 = c - l" using c l by (intro mod_pos_pos_trivial) auto
  then have "c - l = P + H + f" using dval unfolding d_def by simp
  then show ?thesis
    unfolding rx_payload_size_def parse_rx_frame_fields_def Let_def c_def l_def f_def P_def H_def
    by auto
qed

text \<open>
  C9. A frame the sender verifier rejects changes the state in \<^verbatim>\<open>packets_dropped\<close>
  alone, which grows by one. An accepted frame that is classified UNKNOWN leaves the
  whole state as it is. So does every accepted frame whose payload size, as the
  classifier or as the data path computes it, differs from the block size, unless it is
  a PREAMBLE or EOT control frame: with constants as the headers give them, the
  size check of the data path never fails after the classifier has answered NONE.
\<close>

theorem C9_skipped_frames:
  assumes "consts_ok K"
  shows "(\<not> verify_sender (frame_of pkt) (sender_addr (rx fc)) (max_hamming_dist (rx fc))
          \<longrightarrow> process_frame K fc pkt
                = fc\<lparr>rx_stats := (rx_stats fc)\<lparr>packets_dropped := packets_dropped (rx_stats fc) + 1\<rparr>\<rparr>)
       \<and> (verify_sender (frame_of pkt) (sender_addr (rx fc)) (max_hamming_dist (rx fc))
            \<and> check_frame_control K (frame_of pkt) (pkt_stats_of pkt) = CONTROL_FRAME_UNKNOWN
          \<longrightarrow> process_frame K fc pkt = fc)
       \<and> (verify_sender (frame_of pkt) (sender_addr (rx fc)) (max_hamming_dist (rx fc))
            \<and> (cfc_payload_size K (pkt_stats_of pkt) (frame_of pkt) \<noteq> int (TX_PAYLOAD_SIZE K)
                \<or> rx_payload_size K pkt \<noteq> int (TX_PAYLOAD_SIZE K))
            \<and> check_frame_control K (frame_of pkt) (pkt_stats_of pkt) \<noteq> CONTROL_FRAME_PREAMBLE_T
            \<and> check_frame_control K (frame_of pkt) (pkt_stats_of pkt) \<noteq> CONTROL_FRAME_EOT_T
          \<longrightarrow> process_frame K fc pkt = fc)"
proof (intro conjI impI)
  assume "\<not> verify_sender (frame_of pkt) (sender_addr (rx fc)) (max_hamming_dist (rx fc))"
  then show "process_frame K fc pkt
      = fc\<lparr>rx_stats := (rx_stats fc)\<lparr>packets_dropped := packets_dropped (rx_stats fc) + 1\<rparr>\<rparr>"
    by (rule process_frame_rejected)
next
  assume "verify_sender (frame_of pkt) (sender_addr (rx fc)) (max_hamming_dist (rx fc))
     \<and> check_frame_control K (frame_of pkt) (pkt_stats_of pkt) = CONTROL_FRAME_UNKNOWN"
  then show "process_frame K fc pkt = fc" by (simp add: process_frame_unknown)
next
  assume a: "verify_sender (frame_of pkt) (sender_addr (rx fc)) (max_hamming_dist (rx fc))
      \<and> (cfc_payload_size K (pkt_stats_of pkt) (frame_of pkt) \<noteq> int (TX_PAYLOAD_SIZE K)
          \<or> rx_payload_size K pkt \<noteq> int (TX_PAYLOAD_SIZE K))
      \<and> check_frame_control K (frame_of pkt) (pkt_stats_of pkt) \<noteq> CONTROL_FRAME_PREAMBLE_T
      \<and> check_frame_control K (frame_of pkt) (pkt_stats_of pkt) \<noteq> CONTROL_FRAME_EOT_T"
  have "check_frame_control K (frame_of pkt) (pkt_stats_of pkt) \<noteq> CONTROL_FRAME_NONE"
  proof
    assume n: "check_frame_control K (frame_of pkt) (pkt_stats_of pkt) = CONTROL_FRAME_NONE"
    then have s: "cfc_payload_size K (pkt_stats_of pkt) (frame_of pkt) = int (TX_PAYLOAD_SIZE K)"
      by (rule check_none_size)
    with cfc_size_exact [OF assms s] a show False by simp
  qed
  with a have "check_frame_control K (frame_of pkt) (pkt_stats_of pkt) = CONTROL_FRAME_UNKNOWN"
    by (cases "check_frame_control K (frame_of pkt) (pkt_stats_of pkt)") simp_all
  with a show "process_frame K fc pkt = fc" by (simp add: process_frame_unknown)
qed

theorem C9_skipped_frames_witness:
  "process_frame K0 fc0 foreign_pkt
     = fc0\<lparr>rx_stats := (rx_stats fc0)\<lparr>packets_dropped := 1\<rparr>\<rparr>
   \<and> process_frame K0 fc0 (ctrl_pkt 0x11) = fc0
   \<and> process_frame K0 fc0 short_pkt = fc0"
proof -
  note a = C9_skipped_frames [OF consts_ok_K0, of foreign_pkt fc0]
  note b = C9_skipped_frames [OF consts_ok_K0, of "ctrl_pkt 0x11" fc0]
  note c = C9_skipped_frames [OF consts_ok_K0, of short_pkt fc0]
  have d0: "packets_dropped (rx_stats fc0) = 0"
    by (simp add: fc0_def init_frame_controller_def zero_stats_def)
  from a verify_sender_foreign_pkt
  have 1: "process_frame K0 fc0 foreign_pkt
      = fc0\<lparr>rx_stats := (rx_stats fc0)\<lparr>packets_dropped := packets_dropped (rx_stats fc0) + 1\<rparr>\<rparr>"
    by simp
  from b verify_sender_ctrl_pkt [of "0x11"] check_frame_control_unknown
  have 2: "process_frame K0 fc0 (ctrl_pkt 0x11) = fc0" by simp
  have "TX_PAYLOAD_SIZE K0 = 8" by (simp add: K0_def)
  then have "cfc_payload_size K0 (pkt_stats_of short_pkt) (frame_of short_pkt) \<noteq> int (TX_PAYLOAD_SIZE K0)"
    by (simp add: size_short_pkt)
  with c verify_sender_short_pkt check_short_pkt
  have 3: "process_frame K0 fc0 short_pkt = fc0" by simp
  show ?thesis using 1 2 3 by (simp add: d0)
qed

subsection \<open>Frame classifier\<close>

lemma count_sentinels_count_list:
  "CONTROL_FRAME_PREAMBLE K \<noteq> CONTROL_FRAME_EOT K \<Longrightarrow>
   count_sentinels K bs (p, e)
     = (p + count_list bs (CONTROL_FRAME_PREAMBLE K), e + count_list bs (CONTROL_FRAME_EOT K))"
  by (induction bs arbitrary: p e) (auto simp: count_byte_def)

text \<open>
  C7. The classifier answers NONE exactly when the payload size it computes is the block
  size. For a payload of the control-frame size it counts the EOT and the PREAMBLE
  sentinels among the first \<^verbatim>\<open>DXWIFI_TX_PAYLOAD_SIZE\<close> bytes of the payload and answers
  EOT when the EOT count divided by the payload size exceeds 0.66, else PREAMBLE when
  the PREAMBLE count does, else UNKNOWN. Every other size gives UNKNOWN.
\<close>

theorem C7_frame_classifier:
  assumes "consts_ok K"
  shows "check_frame_control K frame h =
     (let payload_size = cfc_payload_size K h frame;
          bytes = read_bytes frame (it_len frame + HDR_SIZE K) (TX_PAYLOAD_SIZE K);
          eot_count = count_list bytes (CONTROL_FRAME_EOT K);
          preamble_count = count_list bytes (CONTROL_FRAME_PREAMBLE K)
      in if payload_size = int (TX_PAYLOAD_SIZE K) then CONTROL_FRAME_NONE
         else if payload_size = int (FRAME_CONTROL_SIZE K) then
           (if (of_nat eot_count / of_int payload_size :: rat) > 66 / 100
            then CONTROL_FRAME_EOT_T
            else if (of_nat preamble_count / of_int payload_size :: rat) > 66 / 100
            then CONTROL_FRAME_PREAMBLE_T
            else CONTROL_FRAME_UNKNOWN)
         else CONTROL_FRAME_UNKNOWN)
   \<and> (check_frame_control K frame h = CONTROL_FRAME_NONE
        \<longleftrightarrow> cfc_payload_size K h frame = int (TX_PAYLOAD_SIZE K))"
proof -
  from assms have ne: "CONTROL_FRAME_PREAMBLE K \<noteq> CONTROL_FRAME_EOT K"
    and cp: "FRAME_CONTROL_SIZE K \<noteq> TX_PAYLOAD_SIZE K"
    and c0: "0 < FRAME_CONTROL_SIZE K"
    by (simp_all add: consts_ok_def)
  show ?thesis
    using cp c0
    by (simp add: check_frame_control_def Let_def count_sentinels_count_list [OF ne]
        over_threshold_def)
qed

lemma K0_sizes: "TX_PAYLOAD_SIZE K0 = 8" "FRAME_CONTROL_SIZE K0 = 10"
  by (simp_all add: K0_def)

lemma size_ctrl_pkt: "cfc_payload_size K0 (pkt_stats_of (ctrl_pkt b)) (frame_of (ctrl_pkt b)) = 10"
  by (simp add: cfc_payload_size_def it_len_def K0_def ctrl_pkt_def mk_packet_def mem_of_def
      frame_bytes_def sender0_def)

lemma size_data_pkt: "cfc_payload_size K0 (pkt_stats_of (data_pkt n b)) (frame_of (data_pkt n b)) = 8"
  by (simp add: cfc_payload_size_def it_len_def K0_def data_pkt_def data_pkt_fcs_def mk_packet_def
      mem_of_def frame_bytes_def sender0_def)

lemma counts_ctrl_pkt_eot:
  "count_list (read_bytes (frame_of (ctrl_pkt 0xAA)) (it_len (frame_of (ctrl_pkt 0xAA)) + HDR_SIZE K0) 8)
     (CONTROL_FRAME_EOT K0) = 8"
  by code_simp

lemma counts_ctrl_pkt_preamble:
  "count_list (read_bytes (frame_of (ctrl_pkt 0xFF)) (it_len (frame_of (ctrl_pkt 0xFF)) + HDR_SIZE K0) 8)
     (CONTROL_FRAME_EOT K0) = 0"
  "count_list (read_bytes (frame_of (ctrl_pkt 0xFF)) (it_len (frame_of (ctrl_pkt 0xFF)) + HDR_SIZE K0) 8)
     (CONTROL_FRAME_PREAMBLE K0) = 8"
  by code_simp+

lemma counts_ctrl_pkt_other:
  "count_list (read_bytes (frame_of (ctrl_pkt 0x11)) (it_len (frame_of (ctrl_pkt 0x11)) + HDR_SIZE K0) 8)
     (CONTROL_FRAME_EOT K0) = 0"
  "count_list (read_bytes (frame_of (ctrl_pkt 0x11)) (it_len (frame_of (ctrl_pkt 0x11)) + HDR_SIZE K0) 8)
     (CONTROL_FRAME_PREAMBLE K0) = 0"
  by code_simp+

theorem C7_frame_classifier_witness:
  "check_frame_control K0 (frame_of (ctrl_pkt 0xAA)) (pkt_stats_of (ctrl_pkt 0xAA)) = CONTROL_FRAME_EOT_T
   \<and> check_frame_control K0 (frame_of (ctrl_pkt 0xFF)) (pkt_stats_of (ctrl_pkt 0xFF)) = CONTROL_FRAME_PREAMBLE_T
   \<and> check_frame_control K0 (frame_of (ctrl_pkt 0x11)) (pkt_stats_of (ctrl_pkt 0x11)) = CONTROL_FRAME_UNKNOWN
   \<and> check_frame_control K0 (frame_of (data_pkt 0 7)) (pkt_stats_of (data_pkt 0 7)) = CONTROL_FRAME_NONE
   \<and> check_frame_control K0 (frame_of short_pkt) (pkt_stats_of short_pkt) = CONTROL_FRAME_UNKNOWN"
proof -
  note c7 = C7_frame_classifier [OF consts_ok_K0, THEN conjunct1]
  have 1: "check_frame_control K0 (frame_of (ctrl_pkt 0xAA)) (pkt_stats_of (ctrl_pkt 0xAA)) = CONTROL_FRAME_EOT_T"
    by (subst c7) (simp add: Let_def size_ctrl_pkt counts_ctrl_pkt_eot K0_sizes)
  have 2: "check_frame_control K0 (frame_of (ctrl_pkt 0xFF)) (pkt_stats_of (ctrl_pkt 0xFF)) = CONTROL_FRAME_PREAMBLE_T"
    by (subst c7) (simp add: Let_def size_ctrl_pkt counts_ctrl_pkt_preamble K0_sizes)
  have 3: "check_frame_control K0 (frame_of (ctrl_pkt 0x11)) (pkt_stats_of (ctrl_pkt 0x11)) = CONTROL_FRAME_UNKNOWN"
    by (subst c7) (simp add: Let_def size_ctrl_pkt counts_ctrl_pkt_other K0_sizes)
  have 4: "check_frame_control K0 (frame_of (data_pkt 0 7)) (pkt_stats_of (data_pkt 0 7)) = CONTROL_FRAME_NONE"
    by (subst c7) (simp add: Let_def size_data_pkt K0_sizes)
  have 5: "check_frame_control K0 (frame_of short_pkt) (pkt_stats_of short_pkt) = CONTROL_FRAME_UNKNOWN"
    by (subst c7) (simp add: Let_def size_short_pkt K0_sizes)
  from 1 2 3 4 5 show ?thesis by simp
qed

subsection \<open>Sender verifier\<close>

lemma unat_hamming_dist32:
  "unat (hamming_dist32 a b) = length (filter (bit (a XOR b)) [0 ..< 32])"
proof -
  have "length (filter (bit (a XOR b)) [0 ..< 32]) \<le> length [0 ..< (32::nat)]"
    by (rule length_filter_le)
  then have "length (filter (bit (a XOR b)) [0 ..< 32]) < 2 ^ 32" by simp
  then show ?thesis by (simp add: hamming_dist32_def unat_of_nat)
qed

lemma bit_read_u32_lane0: "i < 8 \<Longrightarrow> bit (read_u32 m a) i = bit (m a) i"
  by (auto simp: read_u32_def bit_simps dest: bit_imp_le_length)
lemma bit_read_u32_lane1: "i < 8 \<Longrightarrow> bit (read_u32 m a) (i + 8) = bit (m (a + 1)) i"
  by (auto simp: read_u32_def bit_simps dest: bit_imp_le_length)
lemma bit_read_u32_lane2: "i < 8 \<Longrightarrow> bit (read_u32 m a) (i + 16) = bit (m (a + 2)) i"
  by (auto simp: read_u32_def bit_simps dest: bit_imp_le_length)
lemma bit_read_u32_lane3: "i < 8 \<Longrightarrow> bit (read_u32 m a) (i + 24) = bit (m (a + 3)) i"
  by (auto simp: read_u32_def bit_simps dest: bit_imp_le_length)

lemma bit_read_u16_lane0: "i < 8 \<Longrightarrow> bit (ucast (read_u16 m a) :: u32) i = bit (m a) i"
  by (auto simp: read_u16_def bit_simps dest: bit_imp_le_length)
lemma bit_read_u16_lane1: "i < 8 \<Longrightarrow> bit (ucast (read_u16 m a) :: u32) (i + 8) = bit (m (a + 1)) i"
  by (auto simp: read_u16_def bit_simps dest: bit_imp_le_length)
lemma bit_read_u16_high: "i < 16 \<Longrightarrow> \<not> bit (ucast (read_u16 m a) :: u32) (i + 16)"
  by (auto simp: read_u16_def bit_simps dest: bit_imp_le_length)

lemma upt_lanes32:
  "[0 ..< 32] = [0 ..< 8] @ map (\<lambda>i. i + 8) [0 ..< 8] @ map (\<lambda>i. i + 16) [0 ..< 8]
     @ map (\<lambda>i. i + 24) [0 ..< 8::nat]"
  by (simp add: upt_rec)

lemma filter_upt_cong:
  "(\<And>i. i < n \<Longrightarrow> P i = Q i) \<Longrightarrow> filter P [0 ..< n] = filter Q [0 ..< n]"
  by (rule filter_cong) simp_all

lemma count_lanes32:
  "length (filter P [0 ..< 32])
     = length (filter P [0 ..< 8]) + length (filter (\<lambda>i. P (i + 8)) [0 ..< 8])
       + length (filter (\<lambda>i. P (i + 16)) [0 ..< 8]) + length (filter (\<lambda>i. P (i + 24)) [0 ..< 8])"
  unfolding upt_lanes32 by (simp only: filter_append filter_map length_append length_map o_def add.assoc)

lemma hamming_top:
  "unat (hamming_dist32 (read_u32 m a) (read_u32 e 0))
     = differing_bits (m a) (e 0) + differing_bits (m (a + 1)) (e 1)
       + differing_bits (m (a + 2)) (e 2) + differing_bits (m (a + 3)) (e 3)"
proof -
  let ?w = "read_u32 m a XOR read_u32 e 0"
  have 0: "filter (bit ?w) [0 ..< 8] = filter (\<lambda>i. bit (m a) i \<noteq> bit (e 0) i) [0 ..< 8]"
    by (rule filter_upt_cong) (simp only: bit_xor_iff bit_read_u32_lane0)
  have 1: "filter (\<lambda>i. bit ?w (i + 8)) [0 ..< 8]
      = filter (\<lambda>i. bit (m (a + 1)) i \<noteq> bit (e 1) i) [0 ..< 8]"
    by (rule filter_upt_cong) (simp only: bit_xor_iff bit_read_u32_lane1 add_0)
  have 2: "filter (\<lambda>i. bit ?w (i + 16)) [0 ..< 8]
      = filter (\<lambda>i. bit (m (a + 2)) i \<noteq> bit (e 2) i) [0 ..< 8]"
    by (rule filter_upt_cong) (simp only: bit_xor_iff bit_read_u32_lane2 add_0)
  have 3: "filter (\<lambda>i. bit ?w (i + 24)) [0 ..< 8]
      = filter (\<lambda>i. bit (m (a + 3)) i \<noteq> bit (e 3) i) [0 ..< 8]"
    by (rule filter_upt_cong) (simp only: bit_xor_iff bit_read_u32_lane3 add_0)
  show ?thesis
    unfolding unat_hamming_dist32 count_lanes32 0 1 2 3 differing_bits_def ..
qed

lemma hamming_bottom:
  "unat (hamming_dist32 (ucast (read_u16 m a)) (ucast (read_u16 e 4)))
     = differing_bits (m a) (e 4) + differing_bits (m (a + 1)) (e 5)"
proof -
  let ?w = "(ucast (read_u16 m a) :: u32) XOR ucast (read_u16 e 4)"
  have 0: "filter (bit ?w) [0 ..< 8] = filter (\<lambda>i. bit (m a) i \<noteq> bit (e 4) i) [0 ..< 8]"
    by (rule filter_upt_cong) (simp only: bit_xor_iff bit_read_u16_lane0)
  have 1: "filter (\<lambda>i. bit ?w (i + 8)) [0 ..< 8]
      = filter (\<lambda>i. bit (m (a + 1)) i \<noteq> bit (e 5) i) [0 ..< 8]"
    by (rule filter_upt_cong) (simp add: bit_xor_iff bit_read_u16_lane1 del: One_nat_def)
  have 2: "filter (\<lambda>i. bit ?w (i + 16)) [0 ..< 8] = []"
    using bit_read_u16_high [of _ m a] bit_read_u16_high [of _ e 4]
    by (simp add: bit_xor_iff filter_empty_conv)
  have 3: "filter (\<lambda>i. bit ?w (i + 24)) [0 ..< 8] = []"
    using bit_read_u16_high [of "_ + 8" m a] bit_read_u16_high [of "_ + 8" e 4]
    by (simp add: bit_xor_iff filter_empty_conv add.assoc)
  show ?thesis
    unfolding unat_hamming_dist32 count_lanes32 0 1 2 3 differing_bits_def by simp
qed

lemma differing_bits_le: "differing_bits x y \<le> 8"
  unfolding differing_bits_def using length_filter_le [of _ "[0 ..< 8]"] by simp

lemma read_bytes_6: "read_bytes m a 6 = [m a, m (a + 1), m (a + 2), m (a + 3), m (a + 4), m (a + 5)]"
  by (simp add: read_bytes_def upt_rec eval_nat_numeral)

lemma unat_addr_dist:
  "unat (addr_dist frame a e) = mac_hamming (read_bytes frame a 6) (read_bytes e 0 6)"
proof -
  let ?t = "hamming_dist32 (read_u32 frame a) (read_u32 e 0)"
  let ?b = "hamming_dist32 (ucast (read_u16 frame (a + 4))) (ucast (read_u16 e 4))"
  have t: "unat ?t \<le> 32"
    unfolding hamming_top
    using differing_bits_le [of "frame a" "e 0"] differing_bits_le [of "frame (a + 1)" "e 1"]
      differing_bits_le [of "frame (a + 2)" "e 2"] differing_bits_le [of "frame (a + 3)" "e 3"]
    by linarith
  have b: "unat ?b \<le> 16"
    unfolding hamming_bottom
    using differing_bits_le [of "frame (a + 4)" "e 4"] differing_bits_le [of "frame (a + 4 + 1)" "e 5"]
    by linarith
  have "unat ?t + unat ?b < 2 ^ LENGTH(32)" using t b by simp
  then have "unat (?t + ?b) = unat ?t + unat ?b" by (simp only: unat_add_lem)
  then show ?thesis
    unfolding addr_dist_def hamming_top hamming_bottom mac_hamming_def read_bytes_6
    by (simp add: eval_nat_numeral)
qed

text \<open>
  C6. The verifier accepts a frame exactly when, for at least one of the address fields
  addr1, addr2 and addr3, the number of bits in which its six bytes differ from the six
  bytes of the expected address is less than the threshold. The 32-bit part and the
  16-bit part of the source add up to that number, and the sum cannot wrap.
\<close>

theorem C6_sender_verifier:
  "verify_sender frame expected_address threshold \<longleftrightarrow>
     mac_hamming (read_bytes frame (addr1 frame) 6) (read_bytes expected_address 0 6) < unat threshold
     \<or> mac_hamming (read_bytes frame (addr2 frame) 6) (read_bytes expected_address 0 6) < unat threshold
     \<or> mac_hamming (read_bytes frame (addr3 frame) 6) (read_bytes expected_address 0 6) < unat threshold"
  by (simp add: verify_sender_def Let_def word_less_nat_alt unat_addr_dist)

subsection \<open>What a flush leaves alone, and what it writes\<close>

lemma write_noise_fields [simp]:
  "rx (write_noise K i fc) = rx fc"
  "packet_buffer (write_noise K i fc) = packet_buffer fc"
  "pb_size (write_noise K i fc) = pb_size fc"
  "index (write_noise K i fc) = index fc"
  "end_capture (write_noise K i fc) = end_capture fc"
  by (induction i arbitrary: fc; simp add: write_fd_def)+

lemma write_noise_stats [simp]:
  "total_blocks_lost (rx_stats (write_noise K i fc)) = total_blocks_lost (rx_stats fc)"
  "total_writelen (rx_stats (write_noise K i fc)) = total_writelen (rx_stats fc)"
  "bad_crcs (rx_stats (write_noise K i fc)) = bad_crcs (rx_stats fc)"
  "num_packets_processed (rx_stats (write_noise K i fc)) = num_packets_processed (rx_stats fc)"
  by (induction i arbitrary: fc; simp add: write_fd_def)+

lemma fd_write_noise:
  "fd (write_noise K i fc)
     = fd fc @ concat (replicate i (replicate (TX_PAYLOAD_SIZE K) (noise_value (rx fc))))"
  by (induction i arbitrary: fc) (simp_all add: write_fd_def)

lemma total_noise_added_write_noise:
  "total_noise_added (rx_stats (write_noise K i fc))
     = total_noise_added (rx_stats fc) + of_nat (i * TX_PAYLOAD_SIZE K)"
  by (induction i arbitrary: fc) (simp_all add: write_fd_def algebra_simps)

lemma dump_node_fields [simp]:
  "rx (dump_node K e n fc) = rx fc"
  "packet_buffer (dump_node K e n fc) = packet_buffer fc"
  "pb_size (dump_node K e n fc) = pb_size fc"
  "index (dump_node K e n fc) = index fc"
  "end_capture (dump_node K e n fc) = end_capture fc"
  "bad_crcs (rx_stats (dump_node K e n fc)) = bad_crcs (rx_stats fc)"
  "num_packets_processed (rx_stats (dump_node K e n fc)) = num_packets_processed (rx_stats fc)"
  by (simp_all add: dump_node_def Let_def write_fd_def)

lemma dump_loop_fields [simp]:
  "rx (dump_loop K e fc) = rx fc
   \<and> packet_buffer (dump_loop K e fc) = packet_buffer fc
   \<and> pb_size (dump_loop K e fc) = pb_size fc
   \<and> index (dump_loop K e fc) = index fc
   \<and> end_capture (dump_loop K e fc) = end_capture fc
   \<and> bad_crcs (rx_stats (dump_loop K e fc)) = bad_crcs (rx_stats fc)
   \<and> num_packets_processed (rx_stats (dump_loop K e fc)) = num_packets_processed (rx_stats fc)
   \<and> tree (packet_heap (dump_loop K e fc)) = []"
proof (induction K e fc rule: dump_loop.induct)
  case (1 K e fc)
  show ?case
  proof (cases "heap_pop (packet_heap fc)")
    case None
    then have "tree (packet_heap fc) = []" by (simp add: heap_pop_def split: list.splits)
    with None show ?thesis by (subst (1 2 3 4 5 6 7 8) dump_loop.simps) simp
  next
    case (Some a)
    obtain node h' where a: "a = (node, h')" by (cases a)
    from "1.IH" [OF Some [unfolded a] refl] Some a show ?thesis
      by (subst (1 2 3 4 5 6 7 8) dump_loop.simps) simp
  qed
qed

lemma dump_packet_buffer_fields [simp]:
  "rx (dump_packet_buffer K fc) = rx fc"
  "packet_buffer (dump_packet_buffer K fc) = packet_buffer fc"
  "pb_size (dump_packet_buffer K fc) = pb_size fc"
  "index (dump_packet_buffer K fc) = 0"
  "end_capture (dump_packet_buffer K fc) = end_capture fc"
  "bad_crcs (rx_stats (dump_packet_buffer K fc)) = bad_crcs (rx_stats fc)"
  "num_packets_processed (rx_stats (dump_packet_buffer K fc)) = num_packets_processed (rx_stats fc)"
  "tree (packet_heap (dump_packet_buffer K fc)) = []"
  by (simp_all add: dump_packet_buffer_def)

lemma fd_dump_loop:
  "\<not> add_noise (rx fc) \<Longrightarrow>
   fd (dump_loop K e fc)
     = fd fc @ concat (map (block_of K (packet_buffer fc)) (tree (packet_heap fc)))"
proof (induction K e fc rule: dump_loop.induct)
  case (1 K e fc)
  show ?case
  proof (cases "tree (packet_heap fc)")
    case Nil
    then show ?thesis by (simp add: dump_loop_empty)
  next
    case (Cons n ns)
    let ?h = "(packet_heap fc)\<lparr>tree := ns, root_slot := frame_number n\<rparr>"
    let ?fc = "dump_node K e n (fc\<lparr>packet_heap := ?h\<rparr>)"
    have pop: "heap_pop (packet_heap fc) = Some (n, ?h)" by (simp add: heap_pop_def Cons)
    have step: "dump_loop K e fc = dump_loop K (frame_number n + 1) ?fc"
      by (subst dump_loop.simps) (simp add: pop)
    have fd1: "fd ?fc = fd fc @ block_of K (packet_buffer fc) n"
      using "1.prems" by (simp add: dump_node_def Let_def write_fd_def block_of_def)
    from "1.IH" [OF pop refl] "1.prems"
    have "fd (dump_loop K (frame_number n + 1) ?fc)
        = fd ?fc @ concat (map (block_of K (packet_buffer ?fc)) (tree (packet_heap ?fc)))"
      by simp
    then show ?thesis by (simp add: step fd1 Cons)
  qed
qed

subsection \<open>Stable insertion\<close>

lemma heap_insert_insert_after:
  "heap_insert n ns = insert_after (\<lambda>m. sint (frame_number m)) n ns"
  by (induction ns) (simp_all add: order_by_frame_number_desc_def)

lemma map_insert_after:
  "(\<And>z. k' (f z) = k z) \<Longrightarrow> map f (insert_after k x xs) = insert_after k' (f x) (map f xs)"
  by (induction xs) simp_all

lemma insort_insert_after:
  "insort_key k y (insert_after k x zs) = insert_after k x (insort_key k y zs)"
  by (induction zs) auto

lemma insert_after_sort_key: "insert_after k x (sort_key k xs) = sort_key k (xs @ [x])"
proof (induction xs)
  case Nil
  show ?case by simp
next
  case (Cons y ys)
  have "sort_key k ((y # ys) @ [x]) = insort_key k y (sort_key k (ys @ [x]))" by simp
  also have "\<dots> = insort_key k y (insert_after k x (sort_key k ys))" by (simp only: Cons.IH)
  also have "\<dots> = insert_after k x (insort_key k y (sort_key k ys))" by (rule insort_insert_after)
  finally show ?case by simp
qed

subsection \<open>Copying into the staging buffer\<close>

lemma length_memcpy_at:
  "i + length src \<le> length buf \<Longrightarrow> length (memcpy_at buf i src) = length buf"
  by (simp add: memcpy_at_def)

lemma block_memcpy_at_new:
  "i + length src \<le> length buf \<Longrightarrow> take (length src) (drop i (memcpy_at buf i src)) = src"
  by (simp add: memcpy_at_def)

lemma block_memcpy_at_old:
  "d + n \<le> i \<Longrightarrow> i \<le> length buf \<Longrightarrow>
   take n (drop d (memcpy_at buf i src)) = take n (drop d buf)"
proof -
  assume a: "d + n \<le> i" "i \<le> length buf"
  let ?rest = "src @ drop (i + length src) buf"
  have "drop d (take i buf @ ?rest) = drop d (take i buf) @ ?rest" using a by simp
  moreover have "take n (drop d (take i buf) @ ?rest) = take n (drop d (take i buf))"
    using a by simp
  moreover have "take n (drop d (take i buf)) = take n (drop d buf)"
    using a by (simp add: drop_take min_def)
  ultimately show ?thesis by (simp add: memcpy_at_def)
qed

lemma length_payload_bytes [simp]: "length (payload_bytes K pkt) = TX_PAYLOAD_SIZE K"
  by (simp add: payload_bytes_def read_bytes_def Let_def)

lemma caplen_ge_payload:
  "rx_payload_size K pkt = int (TX_PAYLOAD_SIZE K) \<Longrightarrow>
   TX_PAYLOAD_SIZE K \<le> unat (caplen (pkt_stats_of pkt))"
proof -
  assume "rx_payload_size K pkt = int (TX_PAYLOAD_SIZE K)"
  then have "int (TX_PAYLOAD_SIZE K) \<le> uint (caplen (pkt_stats_of pkt))"
    by (auto simp: rx_payload_size_def parse_rx_frame_fields_def Let_def split: if_splits)
  then have "nat (int (TX_PAYLOAD_SIZE K)) \<le> nat (uint (caplen (pkt_stats_of pkt)))"
    by (rule nat_mono)
  then show ?thesis by (simp only: nat_int unat_eq_nat_uint)
qed

lemma set_heap_insert: "set (heap_insert n ns) = insert n (set ns)"
  by (induction ns) auto

subsection \<open>The data path and the generations\<close>

lemma process_frame_not_data:
  "\<not> is_data_frame K (rx fc) pkt \<Longrightarrow>
   packet_heap (process_frame K fc pkt) = packet_heap fc
   \<and> packet_buffer (process_frame K fc pkt) = packet_buffer fc
   \<and> index (process_frame K fc pkt) = index fc
   \<and> fd (process_frame K fc pkt) = fd fc
   \<and> rx (process_frame K fc pkt) = rx fc
   \<and> pb_size (process_frame K fc pkt) = pb_size fc"
  by (auto simp: process_frame_def is_data_frame_def stage_frame_def handle_frame_control_def
      Let_def split: dxwifi_control_frame_t.splits)

lemma pre_flush_fields [simp]:
  "rx (pre_flush K fc) = rx fc"
  "packet_buffer (pre_flush K fc) = packet_buffer fc"
  "pb_size (pre_flush K fc) = pb_size fc"
  "end_capture (pre_flush K fc) = end_capture fc"
  "bad_crcs (rx_stats (pre_flush K fc)) = bad_crcs (rx_stats fc)"
  "num_packets_processed (rx_stats (pre_flush K fc)) = num_packets_processed (rx_stats fc)"
  by (simp_all add: pre_flush_def)

lemma process_frame_data:
  assumes "is_data_frame K (rx fc) pkt"
  shows "process_frame K fc pkt =
     (let fc1 = pre_flush K (fc\<lparr>rx_stats := (rx_stats fc)\<lparr>rtap := Some pkt\<rparr>\<rparr>);
          st = rx_stats fc1
      in fc1\<lparr>packet_buffer := memcpy_at (packet_buffer fc1) (index fc1) (payload_bytes K pkt),
             packet_heap := heap_push (packet_heap fc1) (staged_node K fc1 pkt),
             index := index fc1 + unat (caplen (pkt_stats_of pkt)),
             rx_stats := st
               \<lparr>total_caplen := total_caplen st + caplen (pkt_stats_of pkt),
                total_payload_size := total_payload_size st + of_nat (TX_PAYLOAD_SIZE K),
                num_packets_processed := num_packets_processed st + 1,
                bad_crcs := bad_crcs st + (if frame_crc_valid K pkt then 1 else 0),
                pkt_stats := pkt_stats_of pkt\<rparr>\<rparr>)"
  using assms
  by (simp add: process_frame_def is_data_frame_def stage_frame_def staged_node_def Let_def)

lemma fd_dump_packet_buffer:
  "\<not> add_noise (rx fc) \<Longrightarrow>
   fd (dump_packet_buffer K fc) = fd fc @ concat (map snd (staged K fc))"
  by (simp add: dump_packet_buffer_def fd_dump_loop staged_def o_def)

lemma sim_flush:
  assumes "\<not> add_noise r" and "sim K r out fc (idx, cur, flushed)"
  shows "fd (dump_packet_buffer K fc) = out @ concat (map emit (flushed @ [cur]))"
  using assms by (simp add: sim_def fd_dump_packet_buffer emit_def)

lemma sim_step:
  assumes ord: "ordered r" and nn: "\<not> add_noise r" and s: "sim K r out fc s"
  shows "sim K r out (process_frame K fc pkt) (gen_step K r s pkt)"
proof -
  obtain idx cur flushed where st: "s = (idx, cur, flushed)" by (cases s)
  from s st have r: "rx fc = r" and pb: "pb_size fc = packet_buffer_size r"
    and ix: "index fc = idx" and out: "fd fc = out @ concat (map emit flushed)"
    and sg: "staged K fc = sort_key block_key cur" and inv: "buffer_inv K fc"
    by (simp_all add: sim_def)
  show ?thesis
  proof (cases "is_data_frame K r pkt")
    case False
    with process_frame_not_data [of K fc pkt] r pb ix out sg inv show ?thesis
      by (simp add: st sim_def gen_step_def staged_def buffer_inv_def)
  next
    case True
    let ?P = "TX_PAYLOAD_SIZE K"
    let ?fc0 = "fc\<lparr>rx_stats := (rx_stats fc)\<lparr>rtap := Some pkt\<rparr>\<rparr>"
    let ?fc1 = "pre_flush K ?fc0"
    let ?b = "(extract_frame_number (frame_of pkt), payload_bytes K pkt)"
    let ?n = "unat (caplen (pkt_stats_of pkt))"
    let ?buf' = "memcpy_at (packet_buffer fc) (index ?fc1) (payload_bytes K pkt)"
    from True r have d: "is_data_frame K (rx fc) pkt" by simp
    from True have cap: "?P \<le> ?n" by (simp add: is_data_frame_def caplen_ge_payload)
    from inv have len: "length (packet_buffer fc) = pb_size fc" and room: "?P \<le> pb_size fc"
      and nodes: "\<And>n. n \<in> set (tree (packet_heap fc)) \<Longrightarrow>
                    data n + ?P \<le> index fc \<and> data n + ?P \<le> pb_size fc"
      by (simp_all add: buffer_inv_def)
    note pf = process_frame_data [OF d, unfolded Let_def]
    show ?thesis
    proof (cases "pb_size fc \<le> index fc + ?P")
      case True
      then have fc1: "?fc1 = dump_packet_buffer K ?fc0" by (simp add: pre_flush_def)
      have sim0: "sim K r out ?fc0 (idx, cur, flushed)"
        using r pb ix out sg inv by (simp add: sim_def staged_def buffer_inv_def)
      have fd1: "fd ?fc1 = out @ concat (map emit (flushed @ [cur]))"
        unfolding fc1 by (rule sim_flush [OF nn sim0])
      have i1: "index ?fc1 = 0" and t1: "tree (packet_heap ?fc1) = []"
        unfolding fc1 by simp_all
      have blk: "block_of K (memcpy_at (packet_buffer fc) 0 (payload_bytes K pkt))
                   (staged_node K ?fc1 pkt) = payload_bytes K pkt"
        using block_memcpy_at_new [of 0 "payload_bytes K pkt" "packet_buffer fc"] len room
        by (simp add: block_of_def staged_node_def i1)
      have g: "gen_step K r s pkt = (?n, [?b], flushed @ [cur])"
        using \<open>is_data_frame K r pkt\<close> True pb ix by (simp add: gen_step_def st Let_def)
      show ?thesis
        unfolding g
        using r pb fd1 i1 t1 blk ord cap len room
        by (simp add: pf sim_def staged_def heap_push_def buffer_inv_def length_memcpy_at
            staged_node_def)
    next
      case False
      then have fc1: "?fc1 = ?fc0" by (simp add: pre_flush_def)
      from False have fits: "index fc + ?P \<le> pb_size fc" by simp
      have g: "gen_step K r s pkt = (idx + ?n, cur @ [?b], flushed)"
        using \<open>is_data_frame K r pkt\<close> False pb ix by (simp add: gen_step_def st Let_def)
      let ?node = "staged_node K ?fc0 pkt"
      let ?buf = "memcpy_at (packet_buffer fc) (index fc) (payload_bytes K pkt)"
      let ?f = "\<lambda>n. (frame_number n, block_of K ?buf n)"
      have new: "?f ?node = ?b"
        using block_memcpy_at_new [of "index fc" "payload_bytes K pkt" "packet_buffer fc"] len fits ord r
        by (simp add: block_of_def staged_node_def)
      have old: "map ?f (tree (packet_heap fc)) = staged K fc"
        unfolding staged_def
      proof (rule map_cong [OF refl])
        fix n assume "n \<in> set (tree (packet_heap fc))"
        then have "data n + ?P \<le> index fc" using nodes by simp
        then show "(frame_number n, block_of K ?buf n)
            = (frame_number n, block_of K (packet_buffer fc) n)"
          using block_memcpy_at_old [of "data n" ?P "index fc" "packet_buffer fc"] len fits
          by (simp add: block_of_def)
      qed
      have "map ?f (heap_insert ?node (tree (packet_heap fc)))
          = insert_after block_key (?f ?node) (map ?f (tree (packet_heap fc)))"
        unfolding heap_insert_insert_after
        by (rule map_insert_after) (simp add: block_key_def)
      also have "\<dots> = insert_after block_key ?b (sort_key block_key cur)"
        by (simp only: new old sg)
      also have "\<dots> = sort_key block_key (cur @ [?b])" by (rule insert_after_sort_key)
      finally have sg': "map ?f (heap_insert ?node (tree (packet_heap fc)))
          = sort_key block_key (cur @ [?b])" .
      have dn: "data ?node = index fc" by (simp add: staged_node_def)
      have inv': "buffer_inv K (process_frame K fc pkt)"
        using len room fits cap dn
        by (auto simp: pf fc1 buffer_inv_def heap_push_def length_memcpy_at set_heap_insert
            dest: nodes)
      show ?thesis
        unfolding g using r pb ix out sg' inv'
        by (simp add: sim_def) (simp add: pf fc1 staged_def heap_push_def)
    qed
  qed
qed

lemma sim_foldl:
  "ordered r \<Longrightarrow> \<not> add_noise r \<Longrightarrow> sim K r out fc s \<Longrightarrow>
   sim K r out (foldl (process_frame K) fc pkts) (foldl (gen_step K r) s pkts)"
  by (induction pkts arbitrary: fc s) (simp_all add: sim_step)

lemma sim_set_capture_state: "sim K r out (set_capture_state c fc) s = sim K r out fc s"
  by (simp add: sim_def set_capture_state_def staged_def buffer_inv_def)

lemma sim_capture_step:
  assumes "ordered r" and "\<not> add_noise r" and "sim K r out fc s"
    and "capture_step K e fc = (a', fc')"
  shows "sim K r out fc' (foldl (gen_step K r) s (event_frames e))"
  using assms sim_foldl [of r K out fc s]
  by (cases e) (auto simp: capture_step_def event_frames_def sim_set_capture_state Let_def
      split: if_splits)

lemma sim_capture_loop:
  assumes "ordered r" and "\<not> add_noise r"
  shows "sim K r out fc s \<Longrightarrow> capture_loop K a fc evs = Some fc' \<Longrightarrow>
         sim K r out fc' (foldl (gen_step K r) s (capture_frames K a fc evs))"
proof (induction evs arbitrary: a fc s)
  case Nil
  then show ?case by (simp split: if_splits)
next
  case (Cons e es)
  show ?case
  proof (cases "a \<and> \<not> end_capture fc")
    case False
    with Cons.prems show ?thesis by auto
  next
    case True
    obtain a1 fc1 where step: "capture_step K e fc = (a1, fc1)" by (cases "capture_step K e fc")
    from Cons.prems(2) True step have loop: "capture_loop K a1 fc1 es = Some fc'" by simp
    have "sim K r out fc1 (foldl (gen_step K r) s (event_frames e))"
      by (rule sim_capture_step [OF assms Cons.prems(1) step])
    from Cons.IH [OF this loop] True step show ?thesis by simp
  qed
qed

lemma sim_init:
  "TX_PAYLOAD_SIZE K \<le> packet_buffer_size r \<Longrightarrow>
   sim K r out (init_frame_controller r out slot) (0, [], [])"
  by (simp add: sim_def init_frame_controller_def staged_def buffer_inv_def)

text \<open>
  C1. For a capture with \<^verbatim>\<open>ordered\<close> set and \<^verbatim>\<open>add_noise\<close> clear, whose staging buffer
  holds at least one block, the sink ends up with what it held at the start followed by
  the flush generations in the order of their flushes, each generation being the payloads
  of its data frames sorted by ascending frame number, equal numbers in the order of
  arrival. The frames are those the capture loop handed to \<^verbatim>\<open>process_frame\<close>.
\<close>

theorem C1_ordered_sink:
  assumes "TX_PAYLOAD_SIZE K \<le> packet_buffer_size r"
    and "ordered r" and "\<not> add_noise r"
    and "receiver_activate_capture K r out slot evs = Some (stats, snk)"
  shows "snk = out @ ordered_sink K r (capture_frames K True (init_frame_controller r out slot) evs)"
proof -
  let ?fc0 = "init_frame_controller r out slot"
  from assms(4) obtain fc' where loop: "capture_loop K True ?fc0 evs = Some fc'"
    and snk: "snk = fd (dump_packet_buffer K fc')"
    by (auto simp: receiver_activate_capture_def Let_def split: option.splits)
  obtain idx cur flushed
    where s: "foldl (gen_step K r) (0, [], []) (capture_frames K True ?fc0 evs)
                = (idx, cur, flushed)"
    by (cases "foldl (gen_step K r) (0, [], []) (capture_frames K True ?fc0 evs)")
  have "sim K r out fc' (idx, cur, flushed)"
    using sim_capture_loop [OF assms(2,3) sim_init [OF assms(1)] loop] s by simp
  then have "fd (dump_packet_buffer K fc') = out @ concat (map emit (flushed @ [cur]))"
    by (rule sim_flush [OF assms(3)])
  then show ?thesis by (simp add: snk ordered_sink_def generations_def s)
qed

subsection \<open>Facts about the example data frames\<close>

lemma rx_payload_size_data_pkt:
  "length t = 4 \<Longrightarrow> rx_payload_size K0 (data_pkt_fcs n b t) = 8"
  by (simp add: rx_payload_size_def parse_rx_frame_fields_def it_len_def K0_def data_pkt_fcs_def
      mk_packet_def mem_of_def frame_bytes_def sender0_def)

lemma is_data_frame_data_pkt: "length t = 4 \<Longrightarrow> is_data_frame K0 rx0 (data_pkt_fcs n b t)"
  by (simp add: is_data_frame_def verify_sender_data_pkt check_frame_control_data_pkt
      rx_payload_size_data_pkt K0_sizes)

lemma extract_frame_number_data_pkt:
  "extract_frame_number (frame_of (data_pkt_fcs n b t)) = ucast n"
  by (simp add: extract_frame_number_def addr1_def it_len_def data_pkt_fcs_def mk_packet_def
      mem_of_def frame_bytes_def sender0_def Let_def)

lemma it_len_data_pkt: "it_len (frame_of (data_pkt_fcs n b t)) = 8"
  by (simp add: it_len_def data_pkt_fcs_def mk_packet_def mem_of_def frame_bytes_def)

lemma read_payload_data_pkt: "read_bytes (frame_of (data_pkt_fcs n b t)) 32 8 = replicate 8 b"
  by (simp add: read_bytes_def data_pkt_fcs_def mk_packet_def mem_of_def frame_bytes_def
      sender0_def upt_rec eval_nat_numeral)

lemma payload_bytes_data_pkt: "payload_bytes K0 (data_pkt_fcs n b t) = replicate 8 b"
  by (simp add: payload_bytes_def parse_rx_frame_fields_def it_len_data_pkt K0_def
      read_payload_data_pkt)

lemma caplen_data_pkt:
  "length t = 4 \<Longrightarrow> unat (caplen (pkt_stats_of (data_pkt_fcs n b t))) = 44"
  by (simp add: data_pkt_fcs_def mk_packet_def frame_bytes_def sender0_def)

lemmas data_pkt_facts =
  is_data_frame_data_pkt extract_frame_number_data_pkt payload_bytes_data_pkt caplen_data_pkt

lemma rx0_fields:
  "ordered rx0" "\<not> add_noise rx0" "packet_buffer_size rx0 = 64" "noise_value rx0 = 0xFF"
  by (simp_all add: rx0_def)

lemma capture_frames_last_timeout: "capture_frames K a fc [PollTimeout] = []"
  by (simp add: event_frames_def split: prod.splits)

lemma capture_loop_last_timeout: "\<exists>fc'. capture_loop K a fc [PollTimeout] = Some fc'"
  by (simp add: capture_step_def)

theorem C1_ordered_sink_witness:
  "\<exists>stats. receiver_activate_capture K0 rx0 [] 0
      [Dispatch [data_pkt 3 7, data_pkt 0 9, data_pkt 1 1, data_pkt 4 5], PollTimeout]
    = Some (stats, replicate 8 9 @ replicate 8 7 @ replicate 8 1 @ replicate 8 5)"
proof -
  let ?pkts = "[data_pkt 3 7, data_pkt 0 9, data_pkt 1 1, data_pkt 4 5]"
  let ?evs = "[Dispatch ?pkts, PollTimeout]"
  let ?fc0 = "init_frame_controller rx0 [] 0"
  have room: "TX_PAYLOAD_SIZE K0 \<le> packet_buffer_size rx0" by (simp add: K0_def rx0_def)
  have ord: "ordered rx0" and nn: "\<not> add_noise rx0" by (simp_all add: rx0_def)
  have live: "\<not> end_capture ?fc0" by (simp add: init_frame_controller_def)
  have frames: "capture_frames K0 True ?fc0 ?evs = ?pkts"
    using live by (simp add: capture_frames_last_timeout event_frames_def split: prod.splits)
  obtain a1 fc1 where step: "capture_step K0 (Dispatch ?pkts) ?fc0 = (a1, fc1)"
    by (cases "capture_step K0 (Dispatch ?pkts) ?fc0")
  obtain fc' where "capture_loop K0 a1 fc1 [PollTimeout] = Some fc'"
    using capture_loop_last_timeout by blast
  with live step have "capture_loop K0 True ?fc0 ?evs = Some fc'" by simp
  then obtain stats snk where run: "receiver_activate_capture K0 rx0 [] 0 ?evs = Some (stats, snk)"
    by (simp add: receiver_activate_capture_def Let_def)
  have "snk = [] @ ordered_sink K0 rx0 (capture_frames K0 True ?fc0 ?evs)"
    by (rule C1_ordered_sink [OF room ord nn run])
  also have "\<dots> = replicate 8 9 @ replicate 8 7 @ replicate 8 1 @ replicate 8 5"
    unfolding frames
    by (simp add: ordered_sink_def generations_def gen_step_def data_pkt_def data_pkt_facts
        emit_def block_key_def K0_sizes rx0_fields)
  finally show ?thesis using run by blast
qed

subsection \<open>The staging invariant\<close>

lemma buffer_inv_init:
  "TX_PAYLOAD_SIZE K \<le> packet_buffer_size r \<Longrightarrow> buffer_inv K (init_frame_controller r out slot)"
  by (simp add: buffer_inv_def init_frame_controller_def)

lemma buffer_inv_dump_packet_buffer: "buffer_inv K fc \<Longrightarrow> buffer_inv K (dump_packet_buffer K fc)"
  by (simp add: buffer_inv_def)

lemma index_pre_flush:
  "index (pre_flush K fc) = (if pb_size fc \<le> index fc + TX_PAYLOAD_SIZE K then 0 else index fc)"
  by (simp add: pre_flush_def)

lemma buffer_inv_pre_flush: "buffer_inv K fc \<Longrightarrow> buffer_inv K (pre_flush K fc)"
  by (simp add: pre_flush_def buffer_inv_dump_packet_buffer)

lemma pre_flush_room:
  "buffer_inv K fc \<Longrightarrow> index (pre_flush K fc) + TX_PAYLOAD_SIZE K \<le> pb_size fc"
  by (simp add: pre_flush_def buffer_inv_def)

lemma buffer_inv_process_frame:
  assumes inv: "buffer_inv K fc"
  shows "buffer_inv K (process_frame K fc pkt)"
proof (cases "is_data_frame K (rx fc) pkt")
  case False
  with process_frame_not_data [of K fc pkt] inv show ?thesis
    by (simp add: buffer_inv_def)
next
  case True
  let ?P = "TX_PAYLOAD_SIZE K"
  let ?fc0 = "fc\<lparr>rx_stats := (rx_stats fc)\<lparr>rtap := Some pkt\<rparr>\<rparr>"
  let ?fc1 = "pre_flush K ?fc0"
  from inv have inv0: "buffer_inv K ?fc0" by (simp add: buffer_inv_def)
  then have inv1: "buffer_inv K ?fc1" by (rule buffer_inv_pre_flush)
  from pre_flush_room [OF inv0] have room: "index ?fc1 + ?P \<le> pb_size fc" by simp
  from True have cap: "?P \<le> unat (caplen (pkt_stats_of pkt))"
    by (simp add: is_data_frame_def caplen_ge_payload)
  have dn: "data (staged_node K ?fc1 pkt) = index ?fc1" by (simp add: staged_node_def)
  from inv1 have len: "length (packet_buffer ?fc1) = pb_size fc"
    and nodes: "\<And>n. n \<in> set (tree (packet_heap ?fc1)) \<Longrightarrow>
                  data n + ?P \<le> index ?fc1 \<and> data n + ?P \<le> pb_size fc"
    by (simp_all add: buffer_inv_def)
  from inv have big: "?P \<le> pb_size fc" by (simp add: buffer_inv_def)
  show ?thesis
    using len room cap dn big
    by (auto simp: process_frame_data [OF True] Let_def buffer_inv_def heap_push_def
        length_memcpy_at set_heap_insert dest: nodes)
qed

text \<open>
  C5, as amended. After \<^verbatim>\<open>process_frame\<close> has appended a data frame to a staging buffer
  that holds at least one block, the write index is its value after the buffer-full check
  (0 after a flush) plus the capture length of the frame, every heap node's block starts
  strictly below the write index and ends at or below it, and lies within the buffer.
  The write index is in general no multiple of the block size: the counterexample below
  has a write index of 44 for blocks of 8 bytes.
\<close>

theorem C5_write_index_and_nodes:
  assumes "consts_ok K" and "buffer_inv K fc" and "is_data_frame K (rx fc) pkt"
  shows "index (process_frame K fc pkt)
           = (if pb_size fc \<le> index fc + TX_PAYLOAD_SIZE K then 0 else index fc)
             + unat (caplen (pkt_stats_of pkt))
       \<and> (\<forall>n \<in> set (tree (packet_heap (process_frame K fc pkt))).
             data n < index (process_frame K fc pkt)
             \<and> data n + TX_PAYLOAD_SIZE K \<le> index (process_frame K fc pkt)
             \<and> data n + TX_PAYLOAD_SIZE K \<le> pb_size (process_frame K fc pkt))
       \<and> pb_size (process_frame K fc pkt) = pb_size fc"
proof -
  from assms(1) have pos: "0 < TX_PAYLOAD_SIZE K" by (simp add: consts_ok_def)
  have inv': "buffer_inv K (process_frame K fc pkt)"
    by (rule buffer_inv_process_frame [OF assms(2)])
  have idx: "index (process_frame K fc pkt)
      = (if pb_size fc \<le> index fc + TX_PAYLOAD_SIZE K then 0 else index fc)
        + unat (caplen (pkt_stats_of pkt))"
    by (simp add: process_frame_data [OF assms(3)] Let_def index_pre_flush)
  have pbs: "pb_size (process_frame K fc pkt) = pb_size fc"
    by (simp add: process_frame_data [OF assms(3)] Let_def)
  from inv' pos have "\<forall>n \<in> set (tree (packet_heap (process_frame K fc pkt))).
             data n < index (process_frame K fc pkt)
             \<and> data n + TX_PAYLOAD_SIZE K \<le> index (process_frame K fc pkt)
             \<and> data n + TX_PAYLOAD_SIZE K \<le> pb_size (process_frame K fc pkt)"
    by (auto simp: buffer_inv_def)
  with idx pbs show ?thesis by blast
qed

lemma fc0_fields:
  "index fc0 = 0" "pb_size fc0 = 64" "tree (packet_heap fc0) = []" "fd fc0 = []"
  "rx_stats fc0 = zero_stats" "packet_buffer fc0 = replicate 64 0"
  by (simp_all add: fc0_def init_frame_controller_def rx0_def)

lemma buffer_inv_fc0: "buffer_inv K0 fc0"
  unfolding fc0_def by (rule buffer_inv_init) (simp add: K0_sizes rx0_fields)

lemma index_after_data_pkt: "index (process_frame K0 fc0 (data_pkt 0 7)) = 44"
  using process_frame_data [of K0 fc0 "data_pkt 0 7"]
  by (simp add: Let_def data_pkt_def data_pkt_facts index_pre_flush K0_sizes fc0_fields)

text \<open>
  C5 as stated fails: after one data frame of 44 captured bytes, with blocks of 8 bytes,
  the write index is 44.
\<close>

theorem C5_write_index_counterexample:
  "is_data_frame K0 (rx fc0) (data_pkt 0 7)
   \<and> index (process_frame K0 fc0 (data_pkt 0 7)) = 44
   \<and> \<not> TX_PAYLOAD_SIZE K0 dvd index (process_frame K0 fc0 (data_pkt 0 7))"
proof -
  have "is_data_frame K0 (rx fc0) (data_pkt 0 7)" by (simp add: data_pkt_def data_pkt_facts)
  then show ?thesis by (simp add: index_after_data_pkt K0_sizes)
qed

theorem C5_write_index_and_nodes_witness:
  "index (process_frame K0 fc0 (data_pkt 0 7)) = 44
   \<and> list_all (\<lambda>n. data n < 44 \<and> data n + 8 \<le> 44 \<and> data n + 8 \<le> 64)
        (tree (packet_heap (process_frame K0 fc0 (data_pkt 0 7))))
   \<and> tree (packet_heap (process_frame K0 fc0 (data_pkt 0 7))) \<noteq> []"
proof -
  have d: "is_data_frame K0 (rx fc0) (data_pkt 0 7)" by (simp add: data_pkt_def data_pkt_facts)
  note t = C5_write_index_and_nodes [OF consts_ok_K0 buffer_inv_fc0 d]
  have ne: "tree (packet_heap (process_frame K0 fc0 (data_pkt 0 7))) \<noteq> []"
    by (simp add: process_frame_data [OF d] Let_def heap_push_def pre_flush_def fc0_fields K0_sizes)
  from t ne show ?thesis
    by (auto simp: index_after_data_pkt K0_sizes fc0_fields list_all_iff)
qed

subsection \<open>The CRC flag and the bad-CRC counter\<close>

lemma bad_crcs_process_frame_data:
  "is_data_frame K (rx fc) pkt \<Longrightarrow>
   bad_crcs (rx_stats (process_frame K fc pkt))
     = bad_crcs (rx_stats fc) + (if frame_crc_valid K pkt then 1 else 0)"
  by (simp add: process_frame_data Let_def)

lemma tree_process_frame_data:
  "is_data_frame K (rx fc) pkt \<Longrightarrow>
   tree (packet_heap (process_frame K fc pkt))
     = heap_insert
         (staged_node K (pre_flush K (fc\<lparr>rx_stats := (rx_stats fc)\<lparr>rtap := Some pkt\<rparr>\<rparr>)) pkt)
         (tree (packet_heap (pre_flush K (fc\<lparr>rx_stats := (rx_stats fc)\<lparr>rtap := Some pkt\<rparr>\<rparr>))))"
  by (simp add: process_frame_data Let_def heap_push_def)

lemma parse_data_pkt:
  "length t = 4 \<Longrightarrow>
   parse_rx_frame_fields K0 (pkt_stats_of (data_pkt_fcs n b t)) (frame_of (data_pkt_fcs n b t))
     = \<lparr>mac_hdr = 8, payload = 32, fcs = 40\<rparr>"
  by (simp add: parse_rx_frame_fields_def it_len_data_pkt K0_def)
     (simp add: data_pkt_fcs_def mk_packet_def frame_bytes_def sender0_def)

lemma mac_and_payload_data_pkt:
  "read_bytes (frame_of (data_pkt_fcs n b t)) 8 32
     = [8, 0, 0, 0, 0xAA, 0xAA, 0, 0, 0, n, 0xAA, 0xAA, 0xAA, 0xAA, 0xAA, 0xAA,
        0xAA, 0xAA, 0xAA, 0xAA, 0xAA, 0xAA, 0, 0, b, b, b, b, b, b, b, b]"
  by (simp add: read_bytes_def data_pkt_fcs_def mk_packet_def mem_of_def frame_bytes_def
      sender0_def upt_rec eval_nat_numeral)

lemma K0_crc32: "crc32 K0 = crc32_ieee" "HDR_SIZE K0 = 24" "FCS_SIZE K0 = 4" "\<not> TESTS K0"
  by (simp_all add: K0_def)

lemma crc_data_pkt_0_7: "crc32_ieee (read_bytes (frame_of (data_pkt_fcs 0 7 t)) 8 32) = 0xB27F1E43"
  unfolding mac_and_payload_data_pkt
  by (simp add: crc32_ieee_def crc32_byte_def crc32_bit_def)

lemma fcs_bytes_data_pkt:
  "frame_of (data_pkt_fcs n b [t0, t1, t2, t3]) 40 = t0"
  "read_u32 (frame_of (data_pkt_fcs n b [t0, t1, t2, t3])) 40
     = ucast t0 OR push_bit 8 (ucast t1) OR push_bit 16 (ucast t2) OR push_bit 24 (ucast t3)"
  by (simp_all add: read_u32_def data_pkt_fcs_def mk_packet_def mem_of_def frame_bytes_def
      sender0_def nth_append)

lemma frame_crc_valid_data_pkt:
  "frame_crc_valid K0 (data_pkt_fcs 0 7 [t0, t1, t2, t3]) \<longleftrightarrow> 0xB27F1E43 = (ucast t0 :: u32)"
  by (simp add: frame_crc_valid_def parse_data_pkt K0_sizes K0_crc32 crc_data_pkt_0_7
      fcs_bytes_data_pkt eq_commute)

lemma is_data_frame_small_crc_pkt: "is_data_frame K0 rx0 small_crc_pkt"
proof -
  have "verify_sender (frame_of small_crc_pkt) (sender_addr rx0) (max_hamming_dist rx0)"
    by (simp add: verify_sender_def addr_dist_def addr2_def it_len_def read_u32_def read_u16_def
        small_crc_pkt_def mk_packet_def mem_of_def frame_bytes_def sender0_def rx0_def
        hamming_dist32_self)
  moreover have "check_frame_control K0 (frame_of small_crc_pkt) (pkt_stats_of small_crc_pkt)
      = CONTROL_FRAME_NONE"
    by (simp add: check_frame_control_def cfc_payload_size_def it_len_def K0_def
        small_crc_pkt_def mk_packet_def mem_of_def frame_bytes_def sender0_def)
  moreover have "rx_payload_size K0 small_crc_pkt = 8"
    by (simp add: rx_payload_size_def parse_rx_frame_fields_def it_len_def K0_def
        small_crc_pkt_def mk_packet_def mem_of_def frame_bytes_def sender0_def)
  ultimately show ?thesis by (simp add: is_data_frame_def K0_sizes)
qed

lemma parse_small_crc_pkt:
  "parse_rx_frame_fields K0 (pkt_stats_of small_crc_pkt) (frame_of small_crc_pkt)
     = \<lparr>mac_hdr = 8, payload = 32, fcs = 40\<rparr>"
  by (simp add: parse_rx_frame_fields_def it_len_def K0_def small_crc_pkt_def mk_packet_def
      mem_of_def frame_bytes_def sender0_def)

lemma mac_and_payload_small_crc_pkt:
  "read_bytes (frame_of small_crc_pkt) 8 32
     = [8, 0, 0, 0, 0xAA, 0xAA, 0, 0, 0, 0, 0xAA, 0xAA, 0xAA, 0xAA, 0xAA, 0xAA,
        0xAA, 0xAA, 0xAA, 0xAA, 0xAA, 0xAA, 0, 0, 216, 0, 133, 0, 0, 0, 0, 0]"
  by (simp add: read_bytes_def small_crc_pkt_def mk_packet_def mem_of_def frame_bytes_def
      sender0_def upt_rec eval_nat_numeral)

lemma crc_small_crc_pkt: "crc32_ieee (read_bytes (frame_of small_crc_pkt) 8 32) = 230"
  unfolding mac_and_payload_small_crc_pkt
  by (simp add: crc32_ieee_def crc32_byte_def crc32_bit_def)

lemma fcs_small_crc_pkt:
  "frame_of small_crc_pkt 40 = 230" "read_u32 (frame_of small_crc_pkt) 40 = 230"
  by (simp_all add: read_u32_def small_crc_pkt_def mk_packet_def mem_of_def frame_bytes_def
      sender0_def)

lemma frame_crc_valid_small_crc_pkt: "frame_crc_valid K0 small_crc_pkt"
  by (simp add: frame_crc_valid_def parse_small_crc_pkt K0_sizes K0_crc32 crc_small_crc_pkt
      fcs_small_crc_pkt)

lemma sim_fc0: "sim K0 rx0 [] fc0 (0, [], [])"
  unfolding fc0_def by (rule sim_init) (simp add: K0_sizes rx0_fields)

lemma fd_after_data_pkt:
  "length t = 4 \<Longrightarrow>
   fd (dump_packet_buffer K0 (process_frame K0 fc0 (data_pkt_fcs n b t))) = replicate 8 b"
  using sim_flush [OF rx0_fields(2),
      of K0 "[]" "process_frame K0 fc0 (data_pkt_fcs n b t)" 44 "[(ucast n, replicate 8 b)]" "[]"]
    sim_step [OF rx0_fields(1,2) sim_fc0, of "data_pkt_fcs n b t"]
  by (simp add: gen_step_def data_pkt_facts K0_sizes rx0_fields emit_def)

text \<open>
  C3 at its failing inputs. A data frame whose FCS is wrong leaves \<^verbatim>\<open>bad_crcs\<close> at 0,
  and its payload reaches the sink. A data frame whose FCS is the CRC-32 of its MAC header
  and payload, and which the code finds valid, raises \<^verbatim>\<open>bad_crcs\<close> to 1: the counter
  counts the frames whose check succeeded.
\<close>

theorem C3_bad_crcs_failing_input:
  "is_data_frame K0 (rx fc0) (data_pkt 0 7)
   \<and> crc32 K0 (read_bytes (frame_of (data_pkt 0 7)) 8 32) \<noteq> read_u32 (frame_of (data_pkt 0 7)) 40
   \<and> bad_crcs (rx_stats (process_frame K0 fc0 (data_pkt 0 7))) = 0
   \<and> fd (dump_packet_buffer K0 (process_frame K0 fc0 (data_pkt 0 7))) = replicate 8 7
   \<and> is_data_frame K0 (rx fc0) small_crc_pkt
   \<and> crc32 K0 (read_bytes (frame_of small_crc_pkt) 8 32) = read_u32 (frame_of small_crc_pkt) 40
   \<and> bad_crcs (rx_stats (process_frame K0 fc0 small_crc_pkt)) = 1"
proof -
  have d: "is_data_frame K0 (rx fc0) (data_pkt 0 7)" by (simp add: data_pkt_def data_pkt_facts)
  have wrong: "crc32 K0 (read_bytes (frame_of (data_pkt 0 7)) 8 32)
      \<noteq> read_u32 (frame_of (data_pkt 0 7)) 40"
    by (simp add: data_pkt_def K0_crc32 crc_data_pkt_0_7 fcs_bytes_data_pkt)
  have inv: "\<not> frame_crc_valid K0 (data_pkt 0 7)"
    by (simp add: data_pkt_def frame_crc_valid_data_pkt)
  have b0: "bad_crcs (rx_stats (process_frame K0 fc0 (data_pkt 0 7))) = 0"
    by (simp add: bad_crcs_process_frame_data [OF d] inv fc0_fields zero_stats_def)
  have out: "fd (dump_packet_buffer K0 (process_frame K0 fc0 (data_pkt 0 7))) = replicate 8 7"
    by (simp add: data_pkt_def fd_after_data_pkt)
  have d': "is_data_frame K0 (rx fc0) small_crc_pkt" by (simp add: is_data_frame_small_crc_pkt)
  have right: "crc32 K0 (read_bytes (frame_of small_crc_pkt) 8 32)
      = read_u32 (frame_of small_crc_pkt) 40"
    by (simp add: K0_crc32 crc_small_crc_pkt fcs_small_crc_pkt)
  have b1: "bad_crcs (rx_stats (process_frame K0 fc0 small_crc_pkt)) = 1"
    by (simp add: bad_crcs_process_frame_data [OF d'] frame_crc_valid_small_crc_pkt fc0_fields
        zero_stats_def)
  from d wrong b0 out d' right b1 show ?thesis by blast
qed

text \<open>
  C4 at its failing input. The four bytes at the FCS pointer of the frame hold the CRC-32
  of its MAC header and payload, and the node recorded for it has \<^verbatim>\<open>crc_valid\<close> false:
  the code compares the CRC-32 with the first of the four bytes alone.
\<close>

theorem C4_crc_valid_failing_input:
  "is_data_frame K0 (rx fc0) good_fcs_pkt
   \<and> parse_rx_frame_fields K0 (pkt_stats_of good_fcs_pkt) (frame_of good_fcs_pkt)
       = \<lparr>mac_hdr = 8, payload = 32, fcs = 40\<rparr>
   \<and> crc32 K0 (read_bytes (frame_of good_fcs_pkt) 8 (TX_PAYLOAD_SIZE K0 + HDR_SIZE K0))
       = read_u32 (frame_of good_fcs_pkt) 40
   \<and> map crc_valid (tree (packet_heap (process_frame K0 fc0 good_fcs_pkt))) = [False]"
proof -
  have d: "is_data_frame K0 (rx fc0) good_fcs_pkt"
    by (simp add: good_fcs_pkt_def data_pkt_facts)
  have p: "parse_rx_frame_fields K0 (pkt_stats_of good_fcs_pkt) (frame_of good_fcs_pkt)
       = \<lparr>mac_hdr = 8, payload = 32, fcs = 40\<rparr>"
    by (simp add: good_fcs_pkt_def parse_data_pkt)
  have c: "crc32 K0 (read_bytes (frame_of good_fcs_pkt) 8 (TX_PAYLOAD_SIZE K0 + HDR_SIZE K0))
       = read_u32 (frame_of good_fcs_pkt) 40"
    by (simp add: good_fcs_pkt_def K0_sizes K0_crc32 crc_data_pkt_0_7 fcs_bytes_data_pkt)
  have inv: "\<not> frame_crc_valid K0 good_fcs_pkt"
    by (simp add: good_fcs_pkt_def frame_crc_valid_data_pkt)
  have t: "map crc_valid (tree (packet_heap (process_frame K0 fc0 good_fcs_pkt))) = [False]"
    by (simp add: tree_process_frame_data [OF d] pre_flush_def fc0_fields K0_sizes
        staged_node_def inv)
  from d p c t show ?thesis by blast
qed

lemma dump_loop_Cons:
  "tree (packet_heap fc) = n # ns \<Longrightarrow>
   dump_loop K e fc
     = dump_loop K (frame_number n + 1)
         (dump_node K e n (fc\<lparr>packet_heap := (packet_heap fc)\<lparr>tree := ns, root_slot := frame_number n\<rparr>\<rparr>))"
  by (subst dump_loop.simps) (simp add: heap_pop_def)

lemma dump_node_stats:
  "total_blocks_lost (rx_stats (dump_node K e n fc))
     = total_blocks_lost (rx_stats fc)
       + (if ordered (rx fc) \<and> e \<noteq> frame_number n then frame_number n - e else 0)"
  "total_noise_added (rx_stats (dump_node K e n fc))
     = total_noise_added (rx_stats fc)
       + (if ordered (rx fc) \<and> e \<noteq> frame_number n \<and> add_noise (rx fc)
          then of_nat (nat (sint (frame_number n - e)) * TX_PAYLOAD_SIZE K) else 0)"
  "fd (dump_node K e n fc)
     = fd fc
       @ (if ordered (rx fc) \<and> e \<noteq> frame_number n \<and> add_noise (rx fc)
          then concat (replicate (nat (sint (frame_number n - e)))
                 (replicate (TX_PAYLOAD_SIZE K) (noise_value (rx fc))))
          else [])
       @ block_of K (packet_buffer fc) n"
  by (simp_all add: dump_node_def Let_def write_fd_def total_noise_added_write_noise
      fd_write_noise block_of_def)

lemma dump_loop_effect:
  "tree (packet_heap fc) = ns \<Longrightarrow>
   fd (dump_loop K e fc) = fd fc @ flush_bytes K (rx fc) (packet_buffer fc) e ns
   \<and> (ordered (rx fc) \<longrightarrow>
        total_blocks_lost (rx_stats (dump_loop K e fc))
          = total_blocks_lost (rx_stats fc) + lost_blocks e (map frame_number ns))
   \<and> (ordered (rx fc) \<and> add_noise (rx fc) \<longrightarrow>
        total_noise_added (rx_stats (dump_loop K e fc))
          = total_noise_added (rx_stats fc)
            + of_nat (noise_rounds e (map frame_number ns) * TX_PAYLOAD_SIZE K))"
proof (induction ns arbitrary: e fc)
  case Nil
  then show ?case by (simp add: dump_loop_empty)
next
  case (Cons n ns)
  let ?fc = "dump_node K e n
      (fc\<lparr>packet_heap := (packet_heap fc)\<lparr>tree := ns, root_slot := frame_number n\<rparr>\<rparr>)"
  have t: "tree (packet_heap ?fc) = ns" by simp
  from Cons.IH [OF t, of "frame_number n + 1"] show ?case
    by (simp add: dump_loop_Cons [OF Cons.prems] dump_node_stats algebra_simps)
qed

lemma process_frame_data_no_flush:
  assumes "is_data_frame K (rx fc) pkt" and "index fc + TX_PAYLOAD_SIZE K < pb_size fc"
    and "ordered (rx fc)"
  shows "index (process_frame K fc pkt) = index fc + unat (caplen (pkt_stats_of pkt))"
    and "tree (packet_heap (process_frame K fc pkt))
           = heap_insert \<lparr>frame_number = extract_frame_number (frame_of pkt), data = index fc,
                           crc_valid = frame_crc_valid K pkt\<rparr> (tree (packet_heap fc))"
    and "packet_buffer (process_frame K fc pkt)
           = memcpy_at (packet_buffer fc) (index fc) (payload_bytes K pkt)"
    and "fd (process_frame K fc pkt) = fd fc"
    and "rx (process_frame K fc pkt) = rx fc"
    and "pb_size (process_frame K fc pkt) = pb_size fc"
    and "total_blocks_lost (rx_stats (process_frame K fc pkt)) = total_blocks_lost (rx_stats fc)"
    and "total_noise_added (rx_stats (process_frame K fc pkt)) = total_noise_added (rx_stats fc)"
  using assms(2,3)
  by (simp_all add: process_frame_data [OF assms(1)] Let_def pre_flush_def heap_push_def
      staged_node_def)

lemma data_pkt_simps:
  "is_data_frame K0 rx0 (data_pkt n b)"
  "extract_frame_number (frame_of (data_pkt n b)) = ucast n"
  "payload_bytes K0 (data_pkt n b) = replicate 8 b"
  "unat (caplen (pkt_stats_of (data_pkt n b))) = 44"
  by (simp_all add: data_pkt_def data_pkt_facts)

lemma rx_noise_fields:
  "ordered rx_noise" "add_noise rx_noise" "packet_buffer_size rx_noise = 64" "noise_value rx_noise = 0xFF"
  "sender_addr rx_noise = sender_addr rx0" "max_hamming_dist rx_noise = max_hamming_dist rx0"
  by (simp_all add: rx_noise_def rx0_def)

lemma fc_noise_fields:
  "index fc_noise = 0" "pb_size fc_noise = 64" "tree (packet_heap fc_noise) = []" "fd fc_noise = []"
  "rx_stats fc_noise = zero_stats" "packet_buffer fc_noise = replicate 64 0" "rx fc_noise = rx_noise"
  by (simp_all add: fc_noise_def init_frame_controller_def rx_noise_fields)

lemma is_data_frame_rx_noise: "is_data_frame K0 rx_noise pkt = is_data_frame K0 rx0 pkt"
  by (simp add: is_data_frame_def rx_noise_fields)

text \<open>
  When no pop finds a frame number below the expected one, a flush with noise adds to
  \<^verbatim>\<open>total_noise_added\<close> the block size times what it adds to \<^verbatim>\<open>total_blocks_lost\<close>.
\<close>

lemma of_nat_nat_sint: "0 \<le> sint w \<Longrightarrow> of_nat (nat (sint w)) = w" for w :: u32
proof -
  assume "0 \<le> sint w"
  then have "(of_nat (nat (sint w)) :: u32) = of_int (sint w)" by simp
  then show ?thesis by simp
qed

lemma noise_rounds_lost_blocks:
  "gaps_nonneg e fs \<Longrightarrow> of_nat (noise_rounds e fs) = lost_blocks e fs"
  by (induction fs arbitrary: e) (simp_all add: of_nat_nat_sint)

lemma flush_accounting:
  assumes "ordered (rx fc)" and "add_noise (rx fc)"
    and "gaps_nonneg (root_frame_number (packet_heap fc)) (map frame_number (tree (packet_heap fc)))"
  shows "total_noise_added (rx_stats (dump_packet_buffer K fc)) - total_noise_added (rx_stats fc)
       = (total_blocks_lost (rx_stats (dump_packet_buffer K fc)) - total_blocks_lost (rx_stats fc))
         * of_nat (TX_PAYLOAD_SIZE K)"
  using dump_loop_effect [OF refl, of K "root_frame_number (packet_heap fc)" fc] assms
  by (simp add: dump_packet_buffer_def noise_rounds_lost_blocks)

text \<open>
  C2 at its failing input: an ordered capture with noise, two data frames with the frame
  number 0 in one generation. The second pop finds frame number 0 where 1 is expected,
  which the code takes for a gap of \<open>-1\<close> blocks: no noise is written,
  \<^verbatim>\<open>total_blocks_lost\<close> wraps to \<open>0xFFFFFFFF\<close> and \<^verbatim>\<open>total_noise_added\<close> stays 0, so that
  the two counters no longer agree.
\<close>

theorem C2_duplicate_frame_number_failing_input:
  "total_blocks_lost (rx_stats (dump_packet_buffer K0
       (foldl (process_frame K0) fc_noise [data_pkt 0 7, data_pkt 0 9]))) = 0xFFFFFFFF
   \<and> total_noise_added (rx_stats (dump_packet_buffer K0
       (foldl (process_frame K0) fc_noise [data_pkt 0 7, data_pkt 0 9]))) = 0
   \<and> fd (dump_packet_buffer K0 (foldl (process_frame K0) fc_noise [data_pkt 0 7, data_pkt 0 9]))
       = replicate 8 7 @ replicate 8 9
   \<and> total_noise_added (rx_stats (dump_packet_buffer K0
       (foldl (process_frame K0) fc_noise [data_pkt 0 7, data_pkt 0 9])))
     \<noteq> total_blocks_lost (rx_stats (dump_packet_buffer K0
         (foldl (process_frame K0) fc_noise [data_pkt 0 7, data_pkt 0 9]))) * of_nat (TX_PAYLOAD_SIZE K0)"
proof -
  let ?a = "process_frame K0 fc_noise (data_pkt 0 7)"
  let ?b = "process_frame K0 ?a (data_pkt 0 9)"
  have da: "is_data_frame K0 (rx fc_noise) (data_pkt 0 7)"
    by (simp add: fc_noise_fields is_data_frame_rx_noise data_pkt_simps)
  have room1: "index fc_noise + TX_PAYLOAD_SIZE K0 < pb_size fc_noise" by (simp add: fc_noise_fields K0_sizes)
  have ord1: "ordered (rx fc_noise)" by (simp add: fc_noise_fields rx_noise_fields)
  note a = process_frame_data_no_flush [OF da room1 ord1]
  have a_idx: "index ?a = 44" and a_rx: "rx ?a = rx_noise" and a_pb: "pb_size ?a = 64"
    and a_fd: "fd ?a = []"
    and a_tree: "map frame_number (tree (packet_heap ?a)) = [0]"
    and a_data: "map data (tree (packet_heap ?a)) = [0]"
    and a_buf: "packet_buffer ?a = memcpy_at (replicate 64 0) 0 (replicate 8 7)"
    and a_lost: "total_blocks_lost (rx_stats ?a) = 0"
    and a_noise: "total_noise_added (rx_stats ?a) = 0"
    by (simp_all add: a fc_noise_fields rx_noise_fields K0_sizes data_pkt_simps zero_stats_def)
  have db: "is_data_frame K0 (rx ?a) (data_pkt 0 9)"
    by (simp add: a_rx is_data_frame_rx_noise data_pkt_simps)
  have room: "index ?a + TX_PAYLOAD_SIZE K0 < pb_size ?a" by (simp add: a_idx a_pb K0_sizes)
  have ord: "ordered (rx ?a)" by (simp add: a_rx rx_noise_fields)
  note b = process_frame_data_no_flush [OF db room ord]
  obtain n where an: "tree (packet_heap ?a) = [n]" "frame_number n = 0" "data n = 0"
    using a_tree a_data by (cases "tree (packet_heap ?a)") auto
  let ?m = "\<lparr>frame_number = extract_frame_number (frame_of (data_pkt 0 9)), data = index ?a,
              crc_valid = frame_crc_valid K0 (data_pkt 0 9)\<rparr>"
  have b_tree: "tree (packet_heap ?b) = [n, ?m]"
    by (simp add: b(2) an order_by_frame_number_desc_def data_pkt_simps)
  have b_buf: "packet_buffer ?b
      = memcpy_at (memcpy_at (replicate 64 0) 0 (replicate 8 7)) 44 (replicate 8 9)"
    by (simp add: b(3) a_buf a_idx data_pkt_simps)
  have fm: "frame_number ?m = 0" by (simp add: data_pkt_simps)
  note e = dump_loop_effect [OF b_tree, of K0 "root_frame_number (packet_heap ?b)"]
  have root: "root_frame_number (packet_heap ?b) = 0"
    by (simp add: root_frame_number_def b_tree an)
  have rxb: "rx ?b = rx_noise" by (simp add: b(5) a_rx)
  have "total_blocks_lost (rx_stats (dump_packet_buffer K0 ?b)) = 0xFFFFFFFF"
    using e by (simp add: dump_packet_buffer_def root rxb rx_noise_fields an data_pkt_simps b(7) a_lost)
  moreover have "total_noise_added (rx_stats (dump_packet_buffer K0 ?b)) = 0"
    using e by (simp add: dump_packet_buffer_def root rxb rx_noise_fields an data_pkt_simps b(8) a_noise)
  moreover have "fd (dump_packet_buffer K0 ?b) = replicate 8 7 @ replicate 8 9"
    using e by (simp add: dump_packet_buffer_def root rxb rx_noise_fields an data_pkt_simps b(4) a_fd
        block_of_def b_buf a_idx K0_sizes memcpy_at_def)
  ultimately show ?thesis by (simp add: K0_sizes)
qed

subsection \<open>The final flush\<close>

lemma rx_process_frame [simp]: "rx (process_frame K fc pkt) = rx fc"
  by (simp add: process_frame_def stage_frame_def handle_frame_control_def Let_def
      split: dxwifi_control_frame_t.splits)

lemma heap_insert_not_Nil [simp]: "heap_insert n ns \<noteq> []"
  by (cases ns) simp_all

lemma heap_empty_process_frame:
  "tree (packet_heap (process_frame K fc pkt)) = []
     \<longleftrightarrow> tree (packet_heap fc) = [] \<and> \<not> is_data_frame K (rx fc) pkt"
proof (cases "is_data_frame K (rx fc) pkt")
  case True
  then show ?thesis by (simp add: tree_process_frame_data)
next
  case False
  with process_frame_not_data [of K fc pkt] show ?thesis by simp
qed

lemma heap_empty_foldl:
  "tree (packet_heap (foldl (process_frame K) fc pkts)) = []
     \<longleftrightarrow> tree (packet_heap fc) = [] \<and> list_all (\<lambda>p. \<not> is_data_frame K (rx fc) p) pkts"
  by (induction pkts arbitrary: fc) (auto simp: heap_empty_process_frame)

lemma rx_foldl [simp]: "rx (foldl (process_frame K) fc pkts) = rx fc"
  by (induction pkts arbitrary: fc) simp_all

lemma heap_empty_capture_step:
  "capture_step K e fc = (a', fc') \<Longrightarrow>
   rx fc' = rx fc
   \<and> (tree (packet_heap fc') = []
        \<longleftrightarrow> tree (packet_heap fc) = []
            \<and> list_all (\<lambda>p. \<not> is_data_frame K (rx fc) p) (event_frames e))"
  by (cases e)
     (auto simp: capture_step_def event_frames_def set_capture_state_def heap_empty_foldl Let_def
      split: if_splits)

lemma heap_empty_capture_loop:
  "capture_loop K a fc evs = Some fc' \<Longrightarrow>
   rx fc' = rx fc
   \<and> (tree (packet_heap fc') = []
        \<longleftrightarrow> tree (packet_heap fc) = []
            \<and> list_all (\<lambda>p. \<not> is_data_frame K (rx fc) p) (capture_frames K a fc evs))"
proof (induction evs arbitrary: a fc)
  case Nil
  then show ?case by (simp split: if_splits)
next
  case (Cons e es)
  show ?case
  proof (cases "a \<and> \<not> end_capture fc")
    case False
    with Cons.prems show ?thesis by auto
  next
    case True
    obtain a1 fc1 where step: "capture_step K e fc = (a1, fc1)" by (cases "capture_step K e fc")
    from Cons.prems True step have loop: "capture_loop K a1 fc1 es = Some fc'" by simp
    from Cons.IH [OF loop] heap_empty_capture_step [OF step] True step show ?thesis
      by auto
  qed
qed

lemma process_frame_preamble_first:
  assumes "verify_sender (frame_of pkt) (sender_addr (rx fc)) (max_hamming_dist (rx fc))"
    and "check_frame_control K (frame_of pkt) (pkt_stats_of pkt) = CONTROL_FRAME_PREAMBLE_T"
    and "num_packets_processed (rx_stats fc) = 0"
  shows "process_frame K fc pkt = fc\<lparr>preamble_recv := True\<rparr>"
  using assms by (simp add: process_frame_def handle_frame_control_def)

text \<open>
  C10. \<^verbatim>\<open>receiver_activate_capture\<close> calls \<^verbatim>\<open>dump_packet_buffer\<close> once, on the state the
  loop ends in, whatever that state is. The heap is empty there exactly when no data frame
  was dispatched during the capture. In that case the flush writes nothing to the sink,
  leaves every statistic as it is and sets the write index to 0. The frame number it reads
  from the root slot beforehand, \<^term>\<open>root_slot\<close> of the heap, is arbitrary and has no
  influence.
\<close>

theorem C10_final_flush_of_empty_heap:
  assumes "capture_loop K True (init_frame_controller r out slot) evs = Some fc"
  shows "(tree (packet_heap fc) = []
           \<longleftrightarrow> list_all (\<lambda>p. \<not> is_data_frame K r p)
                 (capture_frames K True (init_frame_controller r out slot) evs))
       \<and> (tree (packet_heap fc) = []
           \<longrightarrow> receiver_activate_capture K r out slot evs = Some (rx_stats fc, fd fc)
               \<and> dump_packet_buffer K fc = fc\<lparr>index := 0\<rparr>
               \<and> index (dump_packet_buffer K fc) = 0)"
  using assms heap_empty_capture_loop [OF assms]
  by (simp add: receiver_activate_capture_def dump_packet_buffer_empty init_frame_controller_def)

theorem C10_final_flush_of_empty_heap_witness:
  "\<not> is_data_frame K0 rx0 (ctrl_pkt 0xFF) \<and> \<not> is_data_frame K0 rx0 foreign_pkt
   \<and> receiver_activate_capture K0 rx0 [] 7 [Dispatch [ctrl_pkt 0xFF, foreign_pkt], PollTimeout]
     = Some (zero_stats\<lparr>packets_dropped := 1, capture_state := RX_TIMED_OUT\<rparr>, [])"
proof -
  let ?i = "init_frame_controller rx0 [] 7"
  let ?evs = "[Dispatch [ctrl_pkt 0xFF, foreign_pkt], PollTimeout]"
  let ?fc = "?i\<lparr>preamble_recv := True,
                 rx_stats := zero_stats\<lparr>packets_dropped := 1, capture_state := RX_TIMED_OUT\<rparr>\<rparr>"
  have rx: "rx ?i = rx0" by (simp add: init_frame_controller_def)
  have 1: "process_frame K0 ?i (ctrl_pkt 0xFF) = ?i\<lparr>preamble_recv := True\<rparr>"
    by (rule process_frame_preamble_first)
       (simp_all add: rx verify_sender_ctrl_pkt check_frame_control_preamble,
        simp add: init_frame_controller_def zero_stats_def)
  have 2: "process_frame K0 (?i\<lparr>preamble_recv := True\<rparr>) foreign_pkt
             = ?i\<lparr>preamble_recv := True, rx_stats := zero_stats\<lparr>packets_dropped := 1\<rparr>\<rparr>"
    by (subst process_frame_rejected)
       (simp_all add: rx verify_sender_foreign_pkt, simp add: init_frame_controller_def zero_stats_def)
  have t: "\<not> TESTS K0" by (simp add: K0_def)
  have e: "\<not> end_capture ?i" by (simp add: init_frame_controller_def)
  have run: "capture_loop K0 True ?i ?evs = Some ?fc"
    by (simp add: capture_step_def 1 2 t e set_capture_state_def)
  have frames: "capture_frames K0 True ?i ?evs = [ctrl_pkt 0xFF, foreign_pkt]"
    by (simp add: capture_step_def event_frames_def 1 2 t e)
  have empty: "tree (packet_heap ?fc) = []" by (simp add: init_frame_controller_def)
  note final = C10_final_flush_of_empty_heap [OF run, unfolded frames]
  from final empty have nd: "list_all (\<lambda>p. \<not> is_data_frame K0 rx0 p) [ctrl_pkt 0xFF, foreign_pkt]"
    and res: "receiver_activate_capture K0 rx0 [] 7 ?evs = Some (rx_stats ?fc, fd ?fc)"
    by blast+
  from nd res show ?thesis by (simp add: init_frame_controller_def)
qed

subsection \<open>Control frames\<close>


















end
